theory Spec2Isabelle
  imports Complex_Main "HOL-Library.Word"
begin

section \<open>Values, failures and the state of the module\<close>

text \<open>
  The module under verification is the remote-storage API of the bridge
  (\<^verbatim>\<open>src/unnamed/part_000\<close>, required as \<^verbatim>\<open>./api\<close> by \<^verbatim>\<open>src/index.js\<close>).
  It is written against module-level mutable variables (\<^verbatim>\<open>pathStack\<close>, \<^verbatim>\<open>tokens\<close>,
  \<^verbatim>\<open>creds\<close>, \<^verbatim>\<open>wdHost\<close>), the network and the local file system.  The embedding
  threads all of them through one record, \<open>world\<close>.
\<close>

type_synonym byte = "8 word"

text \<open>JavaScript exceptions that the module can produce.\<close>

datatype exn =
    TypeError string
  | ReferenceError string
  | SyntaxError string
  | Error string
  | FsError string

text \<open>
  What becomes of a call.  \<open>Returned v\<close>: the function returns \<open>v\<close> (for an async
  function or a promise: it is fulfilled with \<open>v\<close>).  \<open>Raised e\<close>: the exception reaches
  the caller (a throw, or a rejected promise that the caller awaits).  \<open>Uncaught e\<close>: the
  exception is thrown inside a request or stream callback, or inside an async promise
  executor, where no caller can catch it; the promise the caller awaits is never
  settled.  \<open>Hangs\<close>: the promise is never settled and nothing is thrown.
\<close>

datatype 'a outcome = Returned 'a | Raised exn | Uncaught exn | Hangs

text \<open>A remote entry as the listing endpoint sends it, and as \<^verbatim>\<open>ls\<close> maps it.\<close>

datatype raw_entry = RawEntry (raw_name: string) (raw_id: string) (mimeType: string)

datatype entry = Entry (ent_name: string) (ent_id: string) (isDir: bool)

text \<open>
  The arguments of a \<^verbatim>\<open>request\<close> callback: \<^verbatim>\<open>(error, response, body)\<close>.
  \<open>cb_error = None\<close> is \<^verbatim>\<open>null\<close>; \<open>cb_response = None\<close> is \<^verbatim>\<open>undefined\<close>, which
  is what the library passes when the transport fails before any HTTP response exists.
  Of a body only what \<^verbatim>\<open>JSON.parse\<close> makes of it matters: \<open>Unparsable\<close> makes it throw,
  \<open>Parsed d\<close> is an object with the fields the module reads.
\<close>

record http_response =
  statusCode :: nat
  location :: "string option"

record json_doc =
  files :: "raw_entry list option"
  id_token :: "string option"
  size_json :: "nat option"
  tag :: "string option"

datatype body = Unparsable | Parsed json_doc

record reply =
  cb_error :: "string option"
  cb_response :: "http_response option"
  cb_body :: body

text \<open>
  The events of an exchange that is handled by listeners: the streamed GET of \<^verbatim>\<open>dwl\<close>
  (\<^verbatim>\<open>req.on(...)\<close>) and the batch request of \<^verbatim>\<open>multipartMixed\<close>.
\<close>

datatype stream_event =
    OnResponse nat
  | OnError string
  | OnData "byte list"
  | OnEnd

text \<open>
  The requests the module sends.  A URL with query parameters is kept as its
  components: \<open>ChunkPut url offset done authorization tag body\<close> is the PUT to
  \<^verbatim>\<open>${url}?offset=${offset}&done=${done}\<close>.  An \<open>option\<close> argument is a value that may be
  \<^verbatim>\<open>undefined\<close> (\<^verbatim>\<open>tokens.auth\<close> before any login).  \<open>BatchPost mpData auth\<close> is the POST
  of \<^verbatim>\<open>multipartMixed\<close> to \<^verbatim>\<open>/sdk/v1/batch\<close>, with the part it wraps and the token it puts
  in the header.
\<close>

datatype request =
    AuthPost "string option" "string option"
  | ListGet "string option" string
  | MkdirPost "string option" string string
  | SizeGet "string option" string
  | ContentGet string string
  | ActivityPost "string option"
  | ResumablePost "string option" "string option" string string
  | ChunkPut string nat bool "string option" "string option" "byte list"
  | BatchPost string "string option"

text \<open>
  What an observer of a run sees, in order: the requests sent, and the calls of the
  progress callbacks, which are modelled by the events they add.
\<close>

datatype percent = Percent rat | NaN

datatype event =
    Sent request
  | OffsetReported nat
  | PercentReported percent

text \<open>
  The state.  \<open>attempt\<close> is the free identifier \<^verbatim>\<open>attempt\<close> that \<^verbatim>\<open>retryLimited\<close> reads:
  the module declares no such variable, so it is looked up in the global object;
  \<open>None\<close> when no global of that name exists, \<open>Some n\<close> when the host binds it to the
  number \<open>n\<close>.  \<open>replies\<close> are the callback arguments the network will produce, one
  per callback-style request, in order; \<open>streams\<close> the event sequences of the
  exchanges handled by listeners.  A request that finds its list empty is never answered.  The local file system is an
  association list from paths to contents, and a list of directories.
\<close>

record world =
  pathStack :: "string list"
  tokens_auth :: "string option"
  creds_user :: "string option"
  creds_pass :: "string option"
  attempt :: "int option"
  wdHost :: string
  replies :: "reply list"
  streams :: "stream_event list list"
  local_files :: "(string \<times> byte list) list"
  local_dirs :: "string list"
  trace :: "event list"

definition emit :: "event \<Rightarrow> world \<Rightarrow> world" where
  "emit e w = w\<lparr>trace := trace w @ [e]\<rparr>"

section \<open>Result records\<close>

text \<open>
  The values that travel in the \<^verbatim>\<open>result\<close> and \<^verbatim>\<open>data\<close> fields and that the
  exported operations return.  \<open>Obj s d\<close> is the object \<^verbatim>\<open>{ success: s, data: d }\<close> that a
  retryable operation returns (\<^verbatim>\<open>{ success: false }\<close> is \<open>Obj False Undefined\<close>).
\<close>

datatype js_value =
    Undefined
  | Bool bool
  | Num nat
  | Str string
  | Entries "entry list"
  | Obj bool js_value

text \<open>
  The tagged record a primitive resolves with:
  \<^verbatim>\<open>{ success, error, session, result }\<close>.  A field that the object literal does not
  have is \<open>None\<close> (\<open>Undefined\<close> for \<open>result\<close>).  Two literals of the source spell the
  first field \<^verbatim>\<open>sucess\<close>; the record has that field too, so that such an object has
  no \<open>success\<close>.
\<close>

record prim_result =
  success :: "bool option"
  error :: "string option"
  session :: bool
  result :: js_value
  sucess :: "bool option"

text \<open>The three object literals that occur, with the payload as argument.\<close>

definition session_expired :: prim_result where
  "session_expired =
     \<lparr>success = Some False, error = None, session = False, result = Undefined, sucess = None\<rparr>"

definition session_expired_misspelt :: prim_result where
  "session_expired_misspelt =
     \<lparr>success = None, error = None, session = False, result = Undefined, sucess = Some False\<rparr>"

definition failed_with :: "string option \<Rightarrow> prim_result" where
  "failed_with e =
     \<lparr>success = Some False, error = e, session = True, result = Undefined, sucess = None\<rparr>"

definition succeeded :: "js_value \<Rightarrow> prim_result" where
  "succeeded v =
     \<lparr>success = Some True, error = None, session = True, result = v, sucess = None\<rparr>"

text \<open>Truthiness of \<^verbatim>\<open>r.success\<close> and of \<^verbatim>\<open>r.error\<close>.\<close>

definition truthy_success :: "prim_result \<Rightarrow> bool" where
  "truthy_success r = (success r = Some True)"

definition truthy_error :: "prim_result \<Rightarrow> bool" where
  "truthy_error r = (error r \<noteq> None)"

text \<open>
  Reading \<^verbatim>\<open>v.success\<close> for its truth value, and \<^verbatim>\<open>v.data\<close>.  A property of
  \<^verbatim>\<open>undefined\<close> cannot be read; a boolean, number, string or array has neither
  property, and \<^verbatim>\<open>undefined\<close> is falsy.
\<close>

fun success_of :: "js_value \<Rightarrow> exn + bool" where
  "success_of Undefined = Inl (TypeError ''Cannot read property success of undefined'')"
| "success_of (Obj s d) = Inr s"
| "success_of v = Inr False"

fun data_of :: "js_value \<Rightarrow> js_value" where
  "data_of (Obj s d) = d"
| "data_of v = Undefined"

text \<open>\<^verbatim>\<open>resolve(r)\<close> on a promise: only the first call settles it.\<close>

definition resolve :: "'a \<Rightarrow> 'a option \<Rightarrow> 'a option" where
  "resolve r settled = (case settled of None \<Rightarrow> Some r | Some r0 \<Rightarrow> Some r0)"

section \<open>The network\<close>

text \<open>
  Sending a callback-style request: the request is noted, and the next scripted reply,
  if there is one, is what the callback will be called with.
\<close>

definition send :: "request \<Rightarrow> world \<Rightarrow> reply option \<times> world" where
  "send rq w =
     (case replies w of
        [] \<Rightarrow> (None, emit (Sent rq) w)
      | r # rs \<Rightarrow> (Some r, (emit (Sent rq) w)\<lparr>replies := rs\<rparr>))"

text \<open>The exception of \<^verbatim>\<open>response.statusCode\<close> when \<^verbatim>\<open>response\<close> is \<^verbatim>\<open>undefined\<close>.\<close>

definition no_response :: exn where
  "no_response = TypeError ''Cannot read property statusCode of undefined''"

section \<open>Session authenticator\<close>

text \<open>
  \<^verbatim>\<open>login(username, password)\<close>.  The callback reads \<^verbatim>\<open>response.statusCode\<close> first,
  then looks at \<^verbatim>\<open>error\<close>, then parses the body and stores
  \<^verbatim>\<open>'Bearer ' + JSON.parse(body).id_token\<close>.
\<close>

definition login :: "string option \<Rightarrow> string option \<Rightarrow> world \<Rightarrow> bool outcome \<times> world" where
  "login username password w =
     (case send (AuthPost username password) w of
        (None, w1) \<Rightarrow> (Hangs, w1)
      | (Some r, w1) \<Rightarrow>
          (case cb_response r of
             None \<Rightarrow> (Uncaught no_response, w1)
           | Some response \<Rightarrow>
               if statusCode response = 401 then (Returned False, w1)
               else if cb_error r \<noteq> None then (Returned False, w1)
               else
                 (case cb_body r of
                    Unparsable \<Rightarrow> (Uncaught (SyntaxError ''JSON.parse''), w1)
                  | Parsed d \<Rightarrow>
                      (Returned True,
                       w1\<lparr>tokens_auth :=
                            Some (''Bearer '' @
                              (case id_token d of None \<Rightarrow> ''undefined'' | Some t \<Rightarrow> t))\<rparr>))))"

text \<open>
  \<^verbatim>\<open>authenticate(username, password)\<close>: the two assignments to \<^verbatim>\<open>creds\<close> come first,
  then the promise that awaits \<^verbatim>\<open>login\<close>.
\<close>

definition authenticate :: "string option \<Rightarrow> string option \<Rightarrow> world \<Rightarrow> bool outcome \<times> world" where
  "authenticate username password w =
     login username password (w\<lparr>creds_user := username, creds_pass := password\<rparr>)"

text \<open>
  \<^verbatim>\<open>authRetry(func, args)\<close>: awaits \<^verbatim>\<open>authenticate(creds.user, creds.pass)\<close>, drops
  its result, and calls \<^verbatim>\<open>func(...args)\<close>.
\<close>

definition authRetry :: "(world \<Rightarrow> 'a outcome \<times> world) \<Rightarrow> world \<Rightarrow> 'a outcome \<times> world" where
  "authRetry func w =
     (case authenticate (creds_user w) (creds_pass w) w of
        (Returned b, w1) \<Rightarrow> func w1
      | (Raised e, w1) \<Rightarrow> (Raised e, w1)
      | (Uncaught e, w1) \<Rightarrow> (Uncaught e, w1)
      | (Hangs, w1) \<Rightarrow> (Hangs, w1))"

section \<open>Remote operation primitives\<close>

text \<open>\<^verbatim>\<open>ls(authToken, subPath)\<close>.\<close>

definition ls :: "string option \<Rightarrow> string \<Rightarrow> world \<Rightarrow> prim_result outcome \<times> world" where
  "ls authToken subPath w =
     (case send (ListGet authToken subPath) w of
        (None, w1) \<Rightarrow> (Hangs, w1)
      | (Some r, w1) \<Rightarrow>
          (case cb_response r of
             None \<Rightarrow> (Uncaught no_response, w1)
           | Some response \<Rightarrow>
               if statusCode response = 401 then (Returned session_expired, w1)
               else if cb_error r \<noteq> None then (Returned (failed_with (cb_error r)), w1)
               else
                 (case cb_body r of
                    Unparsable \<Rightarrow> (Uncaught (SyntaxError ''JSON.parse''), w1)
                  | Parsed obj \<Rightarrow>
                      (case files obj of
                         None \<Rightarrow> (Returned (succeeded (Entries [])), w1)
                       | Some items \<Rightarrow>
                           (Returned (succeeded (Entries
                              (map (\<lambda>item. Entry (raw_name item) (raw_id item)
                                     (mimeType item = ''application/x.wd.dir'')) items))),
                            w1)))))"

text \<open>
  The last element of \<^verbatim>\<open>s.split('/')\<close>: what follows the last slash, or all of \<open>s\<close>.
\<close>

definition last_segment :: "string \<Rightarrow> string" where
  "last_segment s = rev (takeWhile (\<lambda>c. c \<noteq> CHR ''/'') (rev s))"

text \<open>
  \<^verbatim>\<open>mkdir(authToken, subPath, folderName)\<close>.  The new identifier is the last segment of
  the \<^verbatim>\<open>location\<close> header; \<^verbatim>\<open>split\<close> on a missing header throws.
\<close>

definition mkdir :: "string option \<Rightarrow> string \<Rightarrow> string \<Rightarrow> world \<Rightarrow> prim_result outcome \<times> world" where
  "mkdir authToken subPath folderName w =
     (case send (MkdirPost authToken subPath folderName) w of
        (None, w1) \<Rightarrow> (Hangs, w1)
      | (Some r, w1) \<Rightarrow>
          (case cb_response r of
             None \<Rightarrow> (Uncaught no_response, w1)
           | Some response \<Rightarrow>
               if statusCode response = 401 then (Returned session_expired, w1)
               else if cb_error r \<noteq> None then (Returned (failed_with (cb_error r)), w1)
               else
                 (case location response of
                    None \<Rightarrow> (Uncaught (TypeError ''Cannot read property split of undefined''), w1)
                  | Some l \<Rightarrow> (Returned (succeeded (Str (last_segment l))), w1))))"

text \<open>
  \<^verbatim>\<open>getFileSize(authToken, fileID)\<close>.  Its 401 branch is one of the two literals that
  spell the field \<^verbatim>\<open>sucess\<close>.
\<close>

definition getFileSize :: "string option \<Rightarrow> string \<Rightarrow> world \<Rightarrow> prim_result outcome \<times> world" where
  "getFileSize authToken fileID w =
     (case send (SizeGet authToken fileID) w of
        (None, w1) \<Rightarrow> (Hangs, w1)
      | (Some r, w1) \<Rightarrow>
          (case cb_response r of
             None \<Rightarrow> (Uncaught no_response, w1)
           | Some response \<Rightarrow>
               if statusCode response = 401 then (Returned session_expired_misspelt, w1)
               else if cb_error r \<noteq> None then (Returned (failed_with (cb_error r)), w1)
               else
                 (case cb_body r of
                    Unparsable \<Rightarrow> (Uncaught (SyntaxError ''JSON.parse''), w1)
                  | Parsed d \<Rightarrow>
                      (Returned (succeeded (case size_json d of None \<Rightarrow> Undefined | Some n \<Rightarrow> Num n)),
                       w1))))"

text \<open>
  The object \<^verbatim>\<open>multipartMixed\<close> resolves with: the fields of a primitive's record and,
  in its success literal only, \<^verbatim>\<open>status\<close> and \<^verbatim>\<open>content\<close> (here \<open>batch_content\<close>).
\<close>

record batch_result = prim_result +
  status :: "nat option"
  batch_content :: "byte list option"

text \<open>
  The callback of \<^verbatim>\<open>https.request\<close> in \<^verbatim>\<open>multipartMixed\<close> and the three handlers
  it registers on the response, run over the events of the exchange in order.  The
  second argument is the status of the response once the handlers are registered; the
  callback returns before registering them when the status is 401.  An \<^verbatim>\<open>error\<close>
  event that finds no handler (the request has none) is thrown.
\<close>

fun multipartMixed_events ::
  "stream_event list \<Rightarrow> nat option \<Rightarrow> byte list \<Rightarrow> batch_result option \<Rightarrow> batch_result outcome"
  where
  "multipartMixed_events [] registered currentData settled =
     (case settled of None \<Rightarrow> Hangs | Some r \<Rightarrow> Returned r)"
| "multipartMixed_events (OnResponse code # evs) registered currentData settled =
     (if code = 401
      then multipartMixed_events evs registered currentData
             (resolve \<lparr>success = Some False, error = None, session = False, result = Undefined,
                       sucess = None, status = None, batch_content = None\<rparr> settled)
      else multipartMixed_events evs (Some code) currentData settled)"
| "multipartMixed_events (OnData d # evs) registered currentData settled =
     (case registered of
        None \<Rightarrow> multipartMixed_events evs registered currentData settled
      | Some code \<Rightarrow> multipartMixed_events evs registered (currentData @ d) settled)"
| "multipartMixed_events (OnError e # evs) registered currentData settled =
     (case registered of
        None \<Rightarrow> Uncaught (Error e)
      | Some code \<Rightarrow>
          multipartMixed_events evs registered currentData
            (resolve \<lparr>success = Some False, error = Some e, session = True, result = Undefined,
                      sucess = None, status = None, batch_content = None\<rparr> settled))"
| "multipartMixed_events (OnEnd # evs) registered currentData settled =
     (case registered of
        None \<Rightarrow> multipartMixed_events evs registered currentData settled
      | Some code \<Rightarrow>
          multipartMixed_events evs registered currentData
            (resolve \<lparr>success = Some True, error = None, session = True, result = Undefined,
                      sucess = None, status = Some code, batch_content = Some currentData\<rparr>
               settled))"

text \<open>\<^verbatim>\<open>multipartMixed(mpData, auth)\<close>: one exchange, taken from \<open>streams\<close>.\<close>

definition multipartMixed :: "string \<Rightarrow> string option \<Rightarrow> world \<Rightarrow> batch_result outcome \<times> world" where
  "multipartMixed mpData auth w =
     (case streams w of
        [] \<Rightarrow> (Hangs, emit (Sent (BatchPost mpData auth)) w)
      | evs # rest \<Rightarrow>
          (multipartMixed_events evs None [] None,
           (emit (Sent (BatchPost mpData auth)) w)\<lparr>streams := rest\<rparr>))"

text \<open>Carriage return and line feed, as \<^verbatim>\<open>rm\<close> writes them into the part it builds.\<close>

definition crlf :: string where
  "crlf = [char_of (13::nat), char_of (10::nat)]"

text \<open>
  \<^verbatim>\<open>rm(authToken, entryID)\<close>: wraps a DELETE of the entry into a batch request.  A
  result whose \<^verbatim>\<open>success\<close> is not truthy is passed on as it is (it has no
  \<^verbatim>\<open>status\<close> and no \<^verbatim>\<open>content\<close>); otherwise the success is whether the status is 200,
  with no error and with \<^verbatim>\<open>session: true\<close>.
\<close>

definition rm :: "string option \<Rightarrow> string \<Rightarrow> world \<Rightarrow> prim_result outcome \<times> world" where
  "rm authToken entryID w =
     (case multipartMixed
             (''Content-Id: 0'' @ crlf @ crlf @ ''DELETE /sdk/v2/files/'' @ entryID @ '' HTTP/1.1''
              @ crlf @ ''Host: '' @ wdHost w @ ''.remotewd.com'' @ crlf @ ''Authorization: ''
              @ (case authToken of None \<Rightarrow> ''undefined'' | Some t \<Rightarrow> t) @ crlf @ crlf)
             authToken w of
        (Returned r, w1) \<Rightarrow>
          if success r \<noteq> Some True then (Returned (prim_result.truncate r), w1)
          else
            (Returned \<lparr>success = Some (status r = Some 200), error = None, session = True,
                       result = Bool True, sucess = None\<rparr>, w1)
      | (Raised e, w1) \<Rightarrow> (Raised e, w1)
      | (Uncaught e, w1) \<Rightarrow> (Uncaught e, w1)
      | (Hangs, w1) \<Rightarrow> (Hangs, w1))"

section \<open>The virtual path stack\<close>

text \<open>\<^verbatim>\<open>enterDirectory(folderID)\<close>: returns at once on \<^verbatim>\<open>undefined\<close>, pushes otherwise.\<close>

definition enterDirectory :: "string option \<Rightarrow> world \<Rightarrow> world" where
  "enterDirectory folderID w =
     (case folderID of
        None \<Rightarrow> w
      | Some i \<Rightarrow> w\<lparr>pathStack := pathStack w @ [i]\<rparr>)"

text \<open>\<^verbatim>\<open>setPath(path)\<close>: empties the stack, then enters.\<close>

definition setPath :: "string option \<Rightarrow> world \<Rightarrow> world" where
  "setPath path w = enterDirectory path (w\<lparr>pathStack := []\<rparr>)"

text \<open>
  \<^verbatim>\<open>enterParentDirectory()\<close>: \<^verbatim>\<open>splice(length - 1, 1)\<close> on a non-empty stack and
  \<^verbatim>\<open>true\<close>; \<^verbatim>\<open>false\<close> on an empty one.
\<close>

definition enterParentDirectory :: "world \<Rightarrow> bool \<times> world" where
  "enterParentDirectory w =
     (if length (pathStack w) > 0
      then (True, w\<lparr>pathStack := take (length (pathStack w) - 1) (pathStack w)\<rparr>)
      else (False, w))"

text \<open>
  \<^verbatim>\<open>getCurrentFolder()\<close>: the last element of a non-empty stack, \<^verbatim>\<open>undefined\<close>
  (here \<open>None\<close>) otherwise.
\<close>

definition getCurrentFolder :: "world \<Rightarrow> string option" where
  "getCurrentFolder w =
     (if length (pathStack w) > 0
      then Some (pathStack w ! (length (pathStack w) - 1))
      else None)"

text \<open>
  \<^verbatim>\<open>removePathStackEntries(removeCount)\<close>: at most \<open>removeCount\<close> rounds of
  \<^verbatim>\<open>enterParentDirectory\<close>, leaving the loop at the first \<^verbatim>\<open>false\<close>.
\<close>

fun removePathStackEntries :: "nat \<Rightarrow> world \<Rightarrow> world" where
  "removePathStackEntries 0 w = w"
| "removePathStackEntries (Suc n) w =
     (case enterParentDirectory w of
        (False, w') \<Rightarrow> w'
      | (True, w') \<Rightarrow> removePathStackEntries n w')"

text \<open>
  The expression \<^verbatim>\<open>pathStack.length > 0 ? pathStack[pathStack.length - 1] : 'root'\<close>
  with which \<^verbatim>\<open>_listFiles\<close>, \<^verbatim>\<open>_createDirectory\<close> and \<^verbatim>\<open>_uploadFile\<close> resolve the
  folder they work in.
\<close>

definition currentPath :: "world \<Rightarrow> string" where
  "currentPath w =
     (if length (pathStack w) > 0
      then pathStack w ! (length (pathStack w) - 1)
      else ''root'')"

text \<open>A state with nothing in it, from which the concrete runs below start.\<close>

definition w0 :: world where
  "w0 = \<lparr>pathStack = [], tokens_auth = None, creds_user = None, creds_pass = None,
         attempt = None, wdHost = ''device'', replies = [], streams = [],
         local_files = [], local_dirs = [], trace = []\<rparr>"

section \<open>The local file system\<close>

text \<open>
  Only what the module asks of \<^verbatim>\<open>fs\<close>.  \<^verbatim>\<open>appendFileSync\<close> creates a file that does
  not exist; \<^verbatim>\<open>mkdirSync\<close> throws on a path that exists.  Whether the parent directory
  of a new path exists is not modelled, and \<^verbatim>\<open>path.join(a, b)\<close> is \<open>a\<close>, a slash, \<open>b\<close>.
  The path of an upload names a regular file or nothing.
\<close>

definition appendFileSync :: "string \<Rightarrow> byte list \<Rightarrow> world \<Rightarrow> exn + world" where
  "appendFileSync path chunk w =
     (if path \<in> set (local_dirs w) then Inl (FsError ''EISDIR'')
      else
        (case map_of (local_files w) path of
           None \<Rightarrow> Inr (w\<lparr>local_files := local_files w @ [(path, chunk)]\<rparr>)
         | Some old \<Rightarrow>
             Inr (w\<lparr>local_files :=
                  map (\<lambda>(q, c). if q = path then (q, c @ chunk) else (q, c)) (local_files w)\<rparr>)))"

definition mkdirSync :: "string \<Rightarrow> world \<Rightarrow> exn + world" where
  "mkdirSync path w =
     (if path \<in> set (local_dirs w) \<or> map_of (local_files w) path \<noteq> None
      then Inl (FsError ''EEXIST'')
      else Inr (w\<lparr>local_dirs := local_dirs w @ [path]\<rparr>))"

definition path_join :: "string \<Rightarrow> string \<Rightarrow> string" where
  "path_join a b = a @ ''/'' @ b"

section \<open>Chunked upload\<close>

text \<open>The block size of \<^verbatim>\<open>getFileContent\<close>.\<close>

definition bufferSize :: nat where
  "bufferSize = 20480"

text \<open>
  What the generator \<^verbatim>\<open>getFileContent\<close> yields.  \<open>buffer\<close> holds the first
  \<open>bytesRead\<close> bytes of the shared buffer, which is all that its consumer reads
  (\<^verbatim>\<open>buffer.slice(0, bytesRead)\<close>).
\<close>

record block =
  buffer :: "byte list"
  bytesRead :: nat
  currentOffset :: nat
  isDone :: bool

text \<open>
  The loop of the generator over the content of the file, from an offset: the list of
  the blocks it yields.  \<^verbatim>\<open>readSync\<close> returns the number of bytes between the position
  and the end of the file, at most \<open>bufferSize\<close>.
\<close>

function getFileContent_loop :: "byte list \<Rightarrow> nat \<Rightarrow> block list" where
  "getFileContent_loop content offset =
     (let totalSize = length content in
      if offset \<ge> totalSize then []
      else
        let position = (if offset > totalSize then offset - totalSize else offset);
            chunk = take bufferSize (drop position content);
            n = length chunk;
            done = (n \<noteq> bufferSize)
        in \<lparr>buffer = chunk, bytesRead = n, currentOffset = offset, isDone = done\<rparr>
           # (if done then [] else getFileContent_loop content (offset + n)))"
  by pat_completeness auto
termination
  by (relation "measure (\<lambda>(content, offset). length content - offset)")
     (auto simp: bufferSize_def)

declare getFileContent_loop.simps [simp del]

text \<open>
  \<^verbatim>\<open>getFileContent(filePath)\<close>: \<^verbatim>\<open>statSync\<close> throws when the file does not exist.  The
  file does not change while it is read, so the blocks are those of its content.
\<close>

definition getFileContent :: "string \<Rightarrow> world \<Rightarrow> exn + block list" where
  "getFileContent filePath w =
     (case map_of (local_files w) filePath of
        None \<Rightarrow> Inl (FsError ''ENOENT'')
      | Some content \<Rightarrow> Inr (getFileContent_loop content 0))"

text \<open>The \<^verbatim>\<open>data\<close> argument of \<^verbatim>\<open>uploadManual\<close>.\<close>

record upload_data =
  authorization :: "string option"
  xActivityTag :: "string option"
  url :: string

text \<open>
  The PUT of one block: to \<^verbatim>\<open>${data.url}?offset=${currentOffset}&done=${isDone}\<close>, with
  the two headers and the bytes read.
\<close>

definition chunk_put :: "upload_data \<Rightarrow> block \<Rightarrow> request" where
  "chunk_put data b =
     ChunkPut (url data) (currentOffset b) (isDone b) (authorization data) (xActivityTag data)
       (buffer b)"

text \<open>
  The \<^verbatim>\<open>for ... of\<close> loop of \<^verbatim>\<open>uploadManual\<close> over the blocks.  A callback is modelled
  by the events it adds to the trace.  The result is what \<^verbatim>\<open>doneCallback\<close> is called
  with: \<open>Returned r\<close> for a call \<^verbatim>\<open>doneCallback(r)\<close>, \<open>Hangs\<close> when the loop ends, or a
  PUT is never answered, without any call.  For each block, in this order: the
  progress callback, the PUT, the inspection of its reply.  The error branch of the PUT
  callback calls \<^verbatim>\<open>reportDone\<close>, which is not in scope in \<^verbatim>\<open>uploadManual\<close>.  After a
  block with \<open>isDone\<close> the generator yields nothing more, so the loop ends there.
\<close>

fun uploadManual_loop ::
  "upload_data \<Rightarrow> (nat \<Rightarrow> event list) \<Rightarrow> block list \<Rightarrow> world \<Rightarrow> prim_result outcome \<times> world" where
  "uploadManual_loop data progressCallback [] w = (Hangs, w)"
| "uploadManual_loop data progressCallback (b # bs) w =
     (case send (chunk_put data b)
             (w\<lparr>trace := trace w @ progressCallback (currentOffset b)\<rparr>) of
        (None, w1) \<Rightarrow> (Hangs, w1)
      | (Some r, w1) \<Rightarrow>
          (case cb_response r of
             None \<Rightarrow> (Uncaught no_response, w1)
           | Some response \<Rightarrow>
               if statusCode response = 401 then (Returned session_expired, w1)
               else if cb_error r \<noteq> None
               then (Uncaught (ReferenceError ''reportDone is not defined''), w1)
               else if isDone b then (Returned (succeeded (Bool True)), w1)
               else uploadManual_loop data progressCallback bs w1))"

text \<open>
  \<^verbatim>\<open>uploadManual(data, progressCallback, doneCallback, filePath)\<close>.  It is called
  without \<^verbatim>\<open>await\<close>, so an exception of the generator is caught by nobody.
\<close>

definition uploadManual ::
  "upload_data \<Rightarrow> (nat \<Rightarrow> event list) \<Rightarrow> string \<Rightarrow> world \<Rightarrow> prim_result outcome \<times> world" where
  "uploadManual data progressCallback filePath w =
     (case getFileContent filePath w of
        Inl e \<Rightarrow> (Uncaught e, w)
      | Inr blocks \<Rightarrow> uploadManual_loop data progressCallback blocks w)"

text \<open>
  \<^verbatim>\<open>startUpload(activityID)\<close> inside \<^verbatim>\<open>upl\<close>: opens the resumable session and hands
  the URL built from the \<^verbatim>\<open>location\<close> header to \<^verbatim>\<open>uploadManual\<close>.  A missing header
  is interpolated as the text \<^verbatim>\<open>undefined\<close>.  The modification time in the request
  body comes from the clock and is left out of the request.
\<close>

definition startUpload ::
  "string option \<Rightarrow> string \<Rightarrow> string \<Rightarrow> (nat \<Rightarrow> event list) \<Rightarrow> string option \<Rightarrow> world
     \<Rightarrow> prim_result outcome \<times> world" where
  "startUpload authToken subPath pathToFile reportCompleted activityID w =
     (case send (ResumablePost authToken activityID (last_segment pathToFile) subPath) w of
        (None, w1) \<Rightarrow> (Hangs, w1)
      | (Some r, w1) \<Rightarrow>
          (case cb_response r of
             None \<Rightarrow> (Uncaught no_response, w1)
           | Some response \<Rightarrow>
               if statusCode response = 401 then (Returned session_expired, w1)
               else if cb_error r \<noteq> None then (Returned (failed_with (cb_error r)), w1)
               else
                 uploadManual
                   \<lparr>authorization = authToken, xActivityTag = activityID,
                    url = ''https://'' @ wdHost w1 @ ''.remotewd.com''
                          @ (case location response of None \<Rightarrow> ''undefined'' | Some l \<Rightarrow> l)
                          @ ''/resumable/content''\<rparr>
                   reportCompleted pathToFile w1))"

text \<open>
  \<^verbatim>\<open>upl(authToken, subPath, pathToFile, reportCompleted, reportDone)\<close>: starts the
  activity, then the upload.  The result is what \<^verbatim>\<open>reportDone\<close> is called with.  The
  401 branch of \<^verbatim>\<open>startActivity\<close> calls \<^verbatim>\<open>resolve\<close>, which is not in scope there.
\<close>

definition upl ::
  "string option \<Rightarrow> string \<Rightarrow> string \<Rightarrow> (nat \<Rightarrow> event list) \<Rightarrow> world
     \<Rightarrow> prim_result outcome \<times> world" where
  "upl authToken subPath pathToFile reportCompleted w =
     (case send (ActivityPost authToken) w of
        (None, w1) \<Rightarrow> (Hangs, w1)
      | (Some r, w1) \<Rightarrow>
          (case cb_response r of
             None \<Rightarrow> (Uncaught no_response, w1)
           | Some response \<Rightarrow>
               if statusCode response = 401
               then (Uncaught (ReferenceError ''resolve is not defined''), w1)
               else if cb_error r \<noteq> None then (Returned (failed_with (cb_error r)), w1)
               else
                 (case cb_body r of
                    Unparsable \<Rightarrow> (Uncaught (SyntaxError ''JSON.parse''), w1)
                  | Parsed d \<Rightarrow>
                      startUpload authToken subPath pathToFile reportCompleted (tag d) w1)))"

section \<open>Chunked download\<close>

text \<open>
  The four handlers of \<^verbatim>\<open>dwl\<close>, run over the events of the stream in order, with the
  local offset counter and the state of the promise.  The events of one stream are
  delivered before the code that awaits the promise goes on.  The \<^verbatim>\<open>response\<close> handler
  settles the promise on a 401 and does nothing else; the \<^verbatim>\<open>error\<close> handler reads
  \<^verbatim>\<open>response.statusCode\<close>, and \<^verbatim>\<open>response\<close> is not in scope there; the \<^verbatim>\<open>data\<close>
  handler appends the chunk, calls the progress callback with the offset before the
  chunk, and advances the offset; the \<^verbatim>\<open>end\<close> handler settles the promise with a
  success.
\<close>

fun dwl_events ::
  "string \<Rightarrow> (nat \<times> js_value \<Rightarrow> event list) \<Rightarrow> js_value \<Rightarrow> stream_event list \<Rightarrow> nat
     \<Rightarrow> prim_result option \<Rightarrow> world \<Rightarrow> prim_result outcome \<times> world" where
  "dwl_events localPath progressCallback totalSize [] offset settled w =
     (case settled of None \<Rightarrow> (Hangs, w) | Some r \<Rightarrow> (Returned r, w))"
| "dwl_events localPath progressCallback totalSize (OnResponse code # evs) offset settled w =
     dwl_events localPath progressCallback totalSize evs offset
       (if code = 401 then resolve session_expired_misspelt settled else settled) w"
| "dwl_events localPath progressCallback totalSize (OnError e # evs) offset settled w =
     (Uncaught (ReferenceError ''response is not defined''), w)"
| "dwl_events localPath progressCallback totalSize (OnData chunk # evs) offset settled w =
     (case appendFileSync localPath chunk w of
        Inl e \<Rightarrow> (Uncaught e, w)
      | Inr w1 \<Rightarrow>
          dwl_events localPath progressCallback totalSize evs (offset + length chunk) settled
            (w1\<lparr>trace := trace w1 @ progressCallback (offset, totalSize)\<rparr>))"
| "dwl_events localPath progressCallback totalSize (OnEnd # evs) offset settled w =
     dwl_events localPath progressCallback totalSize evs offset
       (resolve (succeeded (Bool True)) settled) w"

text \<open>
  \<^verbatim>\<open>dwl(authToken, fileID, localPath, progressCallback)\<close>.  The URL is built first
  (\<^verbatim>\<open>authToken.substring(7)\<close>), then the size is asked for; a size result whose
  \<^verbatim>\<open>success\<close> is not truthy is passed on as it is; otherwise the streamed GET starts.
\<close>

definition dwl ::
  "string option \<Rightarrow> string \<Rightarrow> string \<Rightarrow> (nat \<times> js_value \<Rightarrow> event list) \<Rightarrow> world
     \<Rightarrow> prim_result outcome \<times> world" where
  "dwl authToken fileID localPath progressCallback w =
     (case authToken of
        None \<Rightarrow> (Uncaught (TypeError ''Cannot read property substring of undefined''), w)
      | Some t \<Rightarrow>
          (case getFileSize authToken fileID w of
             (Returned sizeData, w1) \<Rightarrow>
               if \<not> truthy_success sizeData then (Returned sizeData, w1)
               else
                 (case streams w1 of
                    [] \<Rightarrow> (Hangs, emit (Sent (ContentGet (drop 7 t) fileID)) w1)
                  | evs # rest \<Rightarrow>
                      dwl_events localPath progressCallback (result sizeData) evs 0 None
                        ((emit (Sent (ContentGet (drop 7 t) fileID)) w1)\<lparr>streams := rest\<rparr>))
           | (Raised e, w1) \<Rightarrow> (Raised e, w1)
           | (Uncaught e, w1) \<Rightarrow> (Uncaught e, w1)
           | (Hangs, w1) \<Rightarrow> (Hangs, w1)))"

section \<open>Retry and re-authentication supervisor\<close>

text \<open>
  \<^verbatim>\<open>retryLimited(tryLimit, actionName, abstractedFunction, afArgs)\<close>.  The closure
  \<^verbatim>\<open>callAbstracted\<close> shares the counter \<^verbatim>\<open>tryCounter\<close> with its own recursive calls;
  here the counter is an argument and is returned.  The closure first compares the
  counter with the limit, then increments it, then evaluates \<^verbatim>\<open>attempt > 1\<close> (a
  \<^verbatim>\<open>ReferenceError\<close> when the identifier is unbound; the logging call it guards has no
  effect on the state), then awaits the operation.
\<close>

function callAbstracted ::
  "nat \<Rightarrow> string \<Rightarrow> (world \<Rightarrow> js_value outcome \<times> world) \<Rightarrow> nat \<Rightarrow> world
     \<Rightarrow> js_value outcome \<times> nat \<times> world" where
  "callAbstracted tryLimit actionName abstractedFunction tryCounter w =
     (if tryCounter > tryLimit then (Returned (Obj False Undefined), tryCounter, w)
      else
        (case attempt w of
           None \<Rightarrow> (Raised (ReferenceError ''attempt is not defined''), tryCounter + 1, w)
         | Some a \<Rightarrow>
             (case abstractedFunction w of
                (Returned r, w1) \<Rightarrow>
                  (case success_of r of
                     Inl e \<Rightarrow> (Raised e, tryCounter + 1, w1)
                   | Inr s \<Rightarrow>
                       if \<not> s
                       then callAbstracted tryLimit actionName abstractedFunction (tryCounter + 1) w1
                       else (Returned (Obj True (data_of r)), tryCounter + 1, w1))
              | (Raised e, w1) \<Rightarrow> (Raised e, tryCounter + 1, w1)
              | (Uncaught e, w1) \<Rightarrow> (Uncaught e, tryCounter + 1, w1)
              | (Hangs, w1) \<Rightarrow> (Hangs, tryCounter + 1, w1))))"
  by pat_completeness auto
termination
  by (relation "measure (\<lambda>(tryLimit, actionName, f, tryCounter, w). Suc tryLimit - tryCounter)") auto

declare callAbstracted.simps [simp del]

text \<open>
  The body of \<^verbatim>\<open>retryLimited\<close> after the closure: the data on success, otherwise an
  \<^verbatim>\<open>Error\<close> whose message has the action name and the literal \<^verbatim>\<open>10\<close>.
\<close>

definition retryLimited ::
  "nat \<Rightarrow> string \<Rightarrow> (world \<Rightarrow> js_value outcome \<times> world) \<Rightarrow> world \<Rightarrow> js_value outcome \<times> world" where
  "retryLimited tryLimit actionName abstractedFunction w =
     (case callAbstracted tryLimit actionName abstractedFunction 0 w of
        (Returned recursiveResult, c, w1) \<Rightarrow>
          (case success_of recursiveResult of
             Inl e \<Rightarrow> (Raised e, w1)
           | Inr s \<Rightarrow>
               if s then (Returned (data_of recursiveResult), w1)
               else (Raised (Error (''tried to '' @ actionName @ '' 10 times and failed'')), w1))
      | (Raised e, c, w1) \<Rightarrow> (Raised e, w1)
      | (Uncaught e, c, w1) \<Rightarrow> (Uncaught e, w1)
      | (Hangs, c, w1) \<Rightarrow> (Hangs, w1))"

text \<open>
  The recursion of a retryable operation through \<^verbatim>\<open>authRetry\<close> only ever continues in
  the state that the re-authentication leaves.
\<close>

lemma authRetry_cong [fundef_cong]:
  assumes "w = w'"
    and "\<And>b w1. authenticate (creds_user w') (creds_pass w') w' = (Returned b, w1) \<Longrightarrow> f w1 = g w1"
  shows "authRetry f w = authRetry g w'"
  using assms by (auto simp: authRetry_def split: prod.splits outcome.splits)

lemma send_replies:
  "send rq w = (Some r, w1) \<Longrightarrow> length (replies w1) < length (replies w)"
  "send rq w = (None, w1) \<Longrightarrow> replies w1 = replies w"
  by (auto simp: send_def emit_def split: list.splits)

lemma login_replies:
  "login u p w = (x, w1) \<Longrightarrow> length (replies w1) \<le> length (replies w)"
  by (auto simp: login_def split: prod.splits option.splits if_splits body.splits
      dest!: send_replies)

lemma authenticate_replies:
  "authenticate u p w = (x, w1) \<Longrightarrow> length (replies w1) \<le> length (replies w)"
  by (auto simp: authenticate_def dest: login_replies)

lemma ls_replies:
  "ls a p w = (Returned r, w1) \<Longrightarrow> length (replies w1) < length (replies w)"
  by (auto simp: ls_def split: prod.splits option.splits if_splits body.splits
      dest!: send_replies)

text \<open>
  \<^verbatim>\<open>_listFiles()\<close>, the retryable body of \<^verbatim>\<open>listFiles\<close>.  It resolves the working
  folder, lists it with the stored token, and on a failure without \<^verbatim>\<open>error\<close> goes
  through \<^verbatim>\<open>authRetry\<close> back to itself.
\<close>

function inner_listFiles :: "world \<Rightarrow> js_value outcome \<times> world" where
  "inner_listFiles w =
     (case ls (tokens_auth w) (currentPath w) w of
        (Returned r, w1) \<Rightarrow>
          if truthy_success r then (Returned (Obj True (result r)), w1)
          else if truthy_error r then (Returned (Obj False Undefined), w1)
          else authRetry inner_listFiles w1
      | (Raised e, w1) \<Rightarrow> (Raised e, w1)
      | (Uncaught e, w1) \<Rightarrow> (Uncaught e, w1)
      | (Hangs, w1) \<Rightarrow> (Hangs, w1))"
  by pat_completeness auto
termination
proof (relation "measure (\<lambda>w. length (replies w))")
  show "wf (measure (\<lambda>w. length (replies w)))" by simp
next
  fix w :: world and x y x1 b w1
  assume "(x, y) = ls (tokens_auth w) (currentPath w) w" and "x = Returned x1"
    and "authenticate (creds_user y) (creds_pass y) y = (Returned b, w1)"
  then have "length (replies y) < length (replies w)" "length (replies w1) \<le> length (replies y)"
    using ls_replies [of "tokens_auth w" "currentPath w" w x1 y]
      authenticate_replies [of "creds_user y" "creds_pass y" y "Returned b" w1]
    by auto
  then show "(w1, w) \<in> measure (\<lambda>w. length (replies w))" by simp
qed

declare inner_listFiles.simps [simp del]

text \<open>\<^verbatim>\<open>listFiles()\<close>: the supervisor around \<^verbatim>\<open>_listFiles\<close>, with the limit 10.\<close>

definition listFiles :: "world \<Rightarrow> js_value outcome \<times> world" where
  "listFiles w = retryLimited 10 ''list files'' inner_listFiles w"

lemma mkdir_replies:
  "mkdir a p n w = (Returned r, w1) \<Longrightarrow> length (replies w1) < length (replies w)"
  by (auto simp: mkdir_def split: prod.splits option.splits if_splits
      dest!: send_replies)

text \<open>
  \<^verbatim>\<open>_createDirectory(dirName)\<close>.  Its body is an async promise executor, so an
  exception that reaches it from the replay is caught by nobody.
\<close>

function inner_createDirectory :: "string \<Rightarrow> world \<Rightarrow> js_value outcome \<times> world" where
  "inner_createDirectory dirName w =
     (case mkdir (tokens_auth w) (currentPath w) dirName w of
        (Returned r, w1) \<Rightarrow>
          if truthy_success r then (Returned (Obj True (result r)), w1)
          else if truthy_error r then (Returned (Obj False Undefined), w1)
          else
            (case authRetry (inner_createDirectory dirName) w1 of
               (Returned v, w2) \<Rightarrow> (Returned v, w2)
             | (Raised e, w2) \<Rightarrow> (Uncaught e, w2)
             | (Uncaught e, w2) \<Rightarrow> (Uncaught e, w2)
             | (Hangs, w2) \<Rightarrow> (Hangs, w2))
      | (Raised e, w1) \<Rightarrow> (Raised e, w1)
      | (Uncaught e, w1) \<Rightarrow> (Uncaught e, w1)
      | (Hangs, w1) \<Rightarrow> (Hangs, w1))"
  by pat_completeness auto
termination
proof (relation "measure (\<lambda>(dirName, w). length (replies w))")
  show "wf (measure (\<lambda>(dirName, w). length (replies w)))" by simp
next
  fix dirName and w :: world and x y x1 b w1
  assume "(x, y) = mkdir (tokens_auth w) (currentPath w) dirName w" and "x = Returned x1"
    and "authenticate (creds_user y) (creds_pass y) y = (Returned b, w1)"
  then have "length (replies y) < length (replies w)" "length (replies w1) \<le> length (replies y)"
    using mkdir_replies [of "tokens_auth w" "currentPath w" dirName w x1 y]
      authenticate_replies [of "creds_user y" "creds_pass y" y "Returned b" w1]
    by auto
  then show "((dirName, w1), dirName, w) \<in> measure (\<lambda>(dirName, w). length (replies w))"
    by simp
qed

declare inner_createDirectory.simps [simp del]

definition createDirectory :: "string \<Rightarrow> world \<Rightarrow> js_value outcome \<times> world" where
  "createDirectory dirName w =
     retryLimited 10 ''create new directory'' (inner_createDirectory dirName) w"

lemma send_streams: "streams (snd (send rq w)) = streams w"
  by (simp add: send_def emit_def split: list.splits)

lemma authenticate_streams:
  "authenticate u p w = (x, w1) \<Longrightarrow> streams w1 = streams w"
  using send_streams [of "AuthPost u p" "w\<lparr>creds_user := u, creds_pass := p\<rparr>"]
  by (auto simp: authenticate_def login_def split: prod.splits option.splits if_splits body.splits)

lemma rm_streams:
  "rm a i w = (Returned r, w1) \<Longrightarrow> length (streams w1) < length (streams w)"
  by (auto simp: rm_def multipartMixed_def emit_def
      split: prod.splits list.splits outcome.splits if_splits)

text \<open>\<^verbatim>\<open>_removeFile(fileID)\<close>.\<close>

function inner_removeFile :: "string \<Rightarrow> world \<Rightarrow> js_value outcome \<times> world" where
  "inner_removeFile fileID w =
     (case rm (tokens_auth w) fileID w of
        (Returned r, w1) \<Rightarrow>
          if truthy_success r then (Returned (Obj True (result r)), w1)
          else if truthy_error r then (Returned (Obj False Undefined), w1)
          else authRetry (inner_removeFile fileID) w1
      | (Raised e, w1) \<Rightarrow> (Raised e, w1)
      | (Uncaught e, w1) \<Rightarrow> (Uncaught e, w1)
      | (Hangs, w1) \<Rightarrow> (Hangs, w1))"
  by pat_completeness auto
termination
proof (relation "measure (\<lambda>(fileID, w). length (streams w))")
  show "wf (measure (\<lambda>(fileID, w). length (streams w)))" by simp
next
  fix fileID and w :: world and x y x1 b w1
  assume "(x, y) = rm (tokens_auth w) fileID w" and "x = Returned x1"
    and "authenticate (creds_user y) (creds_pass y) y = (Returned b, w1)"
  then have "length (streams y) < length (streams w)" "streams w1 = streams y"
    using rm_streams [of "tokens_auth w" fileID w x1 y]
      authenticate_streams [of "creds_user y" "creds_pass y" y "Returned b" w1]
    by auto
  then show "((fileID, w1), fileID, w) \<in> measure (\<lambda>(fileID, w). length (streams w))"
    by simp
qed

declare inner_removeFile.simps [simp del]

definition removeFile :: "string \<Rightarrow> world \<Rightarrow> js_value outcome \<times> world" where
  "removeFile fileID w = retryLimited 10 ''remove file'' (inner_removeFile fileID) w"

lemma getFileSize_replies:
  "getFileSize a f w = (Returned r, w1) \<Longrightarrow> length (replies w1) < length (replies w)"
  by (auto simp: getFileSize_def split: prod.splits option.splits if_splits body.splits
      dest!: send_replies)

lemma appendFileSync_replies: "appendFileSync p c w = Inr w1 \<Longrightarrow> replies w1 = replies w"
  by (auto simp: appendFileSync_def split: if_splits option.splits)

lemma dwl_events_replies:
  "dwl_events p cb t evs off s w = (x, w1) \<Longrightarrow> replies w1 = replies w"
proof (induction p cb t evs off s w rule: dwl_events.induct)
  case (4 localPath progressCallback totalSize chunk evs offset settled w)
  then show ?case
    by (auto split: sum.splits dest: appendFileSync_replies)
qed (auto split: option.splits)

lemma dwl_replies:
  "dwl a f p cb w = (Returned r, w1) \<Longrightarrow> length (replies w1) < length (replies w)"
  by (auto simp: dwl_def emit_def split: option.splits prod.splits outcome.splits if_splits
      list.splits dest!: getFileSize_replies dwl_events_replies)

text \<open>
  The callback that \<^verbatim>\<open>_downloadFile\<close> passes to \<^verbatim>\<open>dwl\<close>: 100 when the total is 0,
  else the quotient.  A total that is \<^verbatim>\<open>undefined\<close> makes the quotient \<^verbatim>\<open>NaN\<close>.
\<close>

definition download_progress :: "(percent \<Rightarrow> event list) \<Rightarrow> nat \<times> js_value \<Rightarrow> event list" where
  "download_progress progressCallback data =
     (case snd data of
        Num n \<Rightarrow>
          if n = 0 then progressCallback (Percent 100)
          else progressCallback (Percent (of_nat (fst data * 100) / of_nat n))
      | v \<Rightarrow> progressCallback NaN)"

text \<open>\<^verbatim>\<open>_downloadFile(fileID, localFilePath, progressCallback)\<close>.\<close>

function inner_downloadFile ::
  "string \<Rightarrow> string \<Rightarrow> (percent \<Rightarrow> event list) \<Rightarrow> world \<Rightarrow> js_value outcome \<times> world" where
  "inner_downloadFile fileID localFilePath progressCallback w =
     (case dwl (tokens_auth w) fileID localFilePath (download_progress progressCallback) w of
        (Returned r, w1) \<Rightarrow>
          if truthy_success r then (Returned (Obj True (result r)), w1)
          else if truthy_error r then (Returned (Obj False Undefined), w1)
          else authRetry (inner_downloadFile fileID localFilePath progressCallback) w1
      | (Raised e, w1) \<Rightarrow> (Raised e, w1)
      | (Uncaught e, w1) \<Rightarrow> (Uncaught e, w1)
      | (Hangs, w1) \<Rightarrow> (Hangs, w1))"
  by pat_completeness auto
termination
proof (relation "measure (\<lambda>(fileID, localFilePath, progressCallback, w). length (replies w))")
  show "wf (measure (\<lambda>(fileID, localFilePath, progressCallback, w). length (replies w)))"
    by simp
next
  fix fileID localFilePath and progressCallback :: "percent \<Rightarrow> event list"
    and w :: world and x y x1 b w1
  assume "(x, y) = dwl (tokens_auth w) fileID localFilePath (download_progress progressCallback) w"
    and "x = Returned x1"
    and "authenticate (creds_user y) (creds_pass y) y = (Returned b, w1)"
  then have "length (replies y) < length (replies w)" "length (replies w1) \<le> length (replies y)"
    using dwl_replies [of "tokens_auth w" fileID localFilePath
        "download_progress progressCallback" w x1 y]
      authenticate_replies [of "creds_user y" "creds_pass y" y "Returned b" w1]
    by auto
  then show "((fileID, localFilePath, progressCallback, w1), fileID, localFilePath, progressCallback, w)
      \<in> measure (\<lambda>(fileID, localFilePath, progressCallback, w). length (replies w))"
    by simp
qed

declare inner_downloadFile.simps [simp del]

definition downloadFile ::
  "string \<Rightarrow> string \<Rightarrow> (percent \<Rightarrow> event list) \<Rightarrow> world \<Rightarrow> js_value outcome \<times> world" where
  "downloadFile fileID localFilePath progressCallback w =
     retryLimited 10 ''download file'' (inner_downloadFile fileID localFilePath progressCallback) w"

text \<open>
  The callback that \<^verbatim>\<open>_uploadFile\<close> passes to \<^verbatim>\<open>upl\<close> as \<^verbatim>\<open>reportCompleted\<close>: 100
  when the file is empty, else the quotient.
\<close>

definition upload_progress :: "(percent \<Rightarrow> event list) \<Rightarrow> nat \<Rightarrow> nat \<Rightarrow> event list" where
  "upload_progress progressCallback totalSize bytesWritten =
     (if totalSize = 0 then progressCallback (Percent 100)
      else progressCallback (Percent (of_nat (bytesWritten * 100) / of_nat totalSize)))"

text \<open>
  \<^verbatim>\<open>_uploadFile(filePath, progressCallback)\<close>.  Its promise is settled only inside the
  callback it passes to \<^verbatim>\<open>upl\<close> as \<^verbatim>\<open>reportDone\<close>, or at once when the file does not
  exist.  On a session failure that callback awaits
  \<^verbatim>\<open>authRetry(uploadFile, [filePath, progressCallback])\<close>, the supervised operation
  itself; this reference is the parameter \<open>replay\<close>, so that the definition is not
  recursive, and whatever is proved of it holds for every \<open>replay\<close>.  The callback is an
  async function that nobody awaits: an exception that reaches it is caught by nobody.
\<close>

definition inner_uploadFile ::
  "(world \<Rightarrow> js_value outcome \<times> world) \<Rightarrow> string \<Rightarrow> (percent \<Rightarrow> event list) \<Rightarrow> world
     \<Rightarrow> js_value outcome \<times> world" where
  "inner_uploadFile replay filePath progressCallback w =
     (case map_of (local_files w) filePath of
        None \<Rightarrow> (Returned (Obj False Undefined), w)
      | Some content \<Rightarrow>
          (case upl (tokens_auth w) (currentPath w) filePath
                  (upload_progress progressCallback (length content)) w of
             (Returned finalResult, w1) \<Rightarrow>
               if truthy_success finalResult then (Returned (Obj True (result finalResult)), w1)
               else if truthy_error finalResult then (Returned (Obj False Undefined), w1)
               else
                 (case authRetry replay w1 of
                    (Returned v, w2) \<Rightarrow> (Returned v, w2)
                  | (Raised e, w2) \<Rightarrow> (Uncaught e, w2)
                  | (Uncaught e, w2) \<Rightarrow> (Uncaught e, w2)
                  | (Hangs, w2) \<Rightarrow> (Hangs, w2))
           | (Raised e, w1) \<Rightarrow> (Raised e, w1)
           | (Uncaught e, w1) \<Rightarrow> (Uncaught e, w1)
           | (Hangs, w1) \<Rightarrow> (Hangs, w1)))"

section \<open>Recursive download of a folder\<close>

text \<open>
  \<^verbatim>\<open>recursiveDownloadFolders\<close> of \<^verbatim>\<open>src/index.js\<close>.  The progress callback it passes
  on is a logging call; it is modelled by the event \<open>PercentReported\<close>.
\<close>

text \<open>The first loop of \<^verbatim>\<open>downloadFolder\<close>: one \<^verbatim>\<open>mkdirSync\<close> per remote subfolder.\<close>

fun mkdir_each :: "string \<Rightarrow> entry list \<Rightarrow> world \<Rightarrow> unit outcome \<times> world" where
  "mkdir_each localPath [] w = (Returned (), w)"
| "mkdir_each localPath (folder # folders) w =
     (case mkdirSync (path_join localPath (ent_name folder)) w of
        Inl e \<Rightarrow> (Raised e, w)
      | Inr w1 \<Rightarrow> mkdir_each localPath folders w1)"

text \<open>
  The second loop: one supervised download per file, inside \<^verbatim>\<open>try ... catch\<close>, so
  that a rejected download is logged and the loop goes on.
\<close>

fun download_each :: "string \<Rightarrow> entry list \<Rightarrow> world \<Rightarrow> unit outcome \<times> world" where
  "download_each localPath [] w = (Returned (), w)"
| "download_each localPath (file # fileList) w =
     (case downloadFile (ent_id file) (path_join localPath (ent_name file))
             (\<lambda>progress. [PercentReported progress]) w of
        (Returned v, w1) \<Rightarrow> download_each localPath fileList w1
      | (Raised e, w1) \<Rightarrow> download_each localPath fileList w1
      | (Uncaught e, w1) \<Rightarrow> (Uncaught e, w1)
      | (Hangs, w1) \<Rightarrow> (Hangs, w1))"

text \<open>
  \<^verbatim>\<open>downloadFolder(remoteFolderID, localPath)\<close> and its third loop, the recursion into
  the subfolders.  The remote tree comes from the network and need not be finite, so
  the recursion carries a bound on its depth; \<open>None\<close> says that the bound was reached.
  \<^verbatim>\<open>downloadFolder\<close> enters the folder and never leaves it.
\<close>

fun downloadFolder :: "nat \<Rightarrow> string \<Rightarrow> string \<Rightarrow> world \<Rightarrow> (unit outcome \<times> world) option"
  and downloadSubfolders :: "nat \<Rightarrow> string \<Rightarrow> entry list \<Rightarrow> world \<Rightarrow> (unit outcome \<times> world) option"
  where
  "downloadFolder 0 remoteFolderID localPath w = None"
| "downloadFolder (Suc depth) remoteFolderID localPath w =
     (case listFiles (enterDirectory (Some remoteFolderID) w) of
        (Returned v, w1) \<Rightarrow>
          (case v of
             Entries entries \<Rightarrow>
               (case mkdir_each localPath (filter isDir entries) w1 of
                  (Returned u, w2) \<Rightarrow>
                    (case download_each localPath (filter (\<lambda>entry. \<not> isDir entry) entries) w2 of
                       (Returned u', w3) \<Rightarrow>
                         downloadSubfolders depth localPath (filter isDir entries) w3
                     | (Raised e, w3) \<Rightarrow> Some (Raised e, w3)
                     | (Uncaught e, w3) \<Rightarrow> Some (Uncaught e, w3)
                     | (Hangs, w3) \<Rightarrow> Some (Hangs, w3))
                | (Raised e, w2) \<Rightarrow> Some (Raised e, w2)
                | (Uncaught e, w2) \<Rightarrow> Some (Uncaught e, w2)
                | (Hangs, w2) \<Rightarrow> Some (Hangs, w2))
           | other \<Rightarrow> Some (Raised (TypeError ''entries.filter is not a function''), w1))
      | (Raised e, w1) \<Rightarrow> Some (Raised e, w1)
      | (Uncaught e, w1) \<Rightarrow> Some (Uncaught e, w1)
      | (Hangs, w1) \<Rightarrow> Some (Hangs, w1))"
| "downloadSubfolders depth localPath [] w = Some (Returned (), w)"
| "downloadSubfolders depth localPath (folder # folders) w =
     (case downloadFolder depth (ent_id folder) (path_join localPath (ent_name folder)) w of
        None \<Rightarrow> None
      | Some (Returned u, w1) \<Rightarrow> downloadSubfolders depth localPath folders w1
      | Some (Raised e, w1) \<Rightarrow> Some (Raised e, w1)
      | Some (Uncaught e, w1) \<Rightarrow> Some (Uncaught e, w1)
      | Some (Hangs, w1) \<Rightarrow> Some (Hangs, w1))"

text \<open>
  \<^verbatim>\<open>recursiveDownloadFolders(srcFolderID, basepath)\<close>: remembers the current folder,
  enters the source folder, creates the destination directory, downloads, and enters
  the remembered folder.
\<close>

definition recursiveDownloadFolders ::
  "nat \<Rightarrow> string \<Rightarrow> string \<Rightarrow> world \<Rightarrow> (unit outcome \<times> world) option" where
  "recursiveDownloadFolders depth srcFolderID basepath w =
     (case mkdirSync basepath (enterDirectory (Some srcFolderID) w) of
        Inl e \<Rightarrow> Some (Raised e, enterDirectory (Some srcFolderID) w)
      | Inr w1 \<Rightarrow>
          (case downloadFolder depth srcFolderID basepath w1 of
             None \<Rightarrow> None
           | Some (Returned u, w2) \<Rightarrow> Some (Returned (), enterDirectory (getCurrentFolder w) w2)
           | Some (Raised e, w2) \<Rightarrow> Some (Raised e, w2)
           | Some (Uncaught e, w2) \<Rightarrow> Some (Uncaught e, w2)
           | Some (Hangs, w2) \<Rightarrow> Some (Hangs, w2)))"

section \<open>Replies and states of the concrete runs\<close>

text \<open>A parsed body with none of the fields, and replies built from it.\<close>

definition no_fields :: json_doc where
  "no_fields = \<lparr>files = None, id_token = None, size_json = None, tag = None\<rparr>"

definition ok_reply :: "json_doc \<Rightarrow> reply" where
  "ok_reply d =
     \<lparr>cb_error = None, cb_response = Some \<lparr>statusCode = 200, location = None\<rparr>,
      cb_body = Parsed d\<rparr>"

definition located_reply :: "string \<Rightarrow> reply" where
  "located_reply l =
     \<lparr>cb_error = None, cb_response = Some \<lparr>statusCode = 201, location = Some l\<rparr>,
      cb_body = Parsed no_fields\<rparr>"

definition unauthorized_reply :: reply where
  "unauthorized_reply =
     \<lparr>cb_error = None, cb_response = Some \<lparr>statusCode = 401, location = None\<rparr>,
      cb_body = Unparsable\<rparr>"

text \<open>
  An error reported together with a response that is not a 401: the shape of reply for
  which the \<^verbatim>\<open>if (error)\<close> branch of a callback is reached.
\<close>

definition failed_reply :: reply where
  "failed_reply =
     \<lparr>cb_error = Some ''ECONNRESET'', cb_response = Some \<lparr>statusCode = 500, location = None\<rparr>,
      cb_body = Unparsable\<rparr>"

text \<open>A transport error: an error and no response.\<close>

definition transport_error_reply :: reply where
  "transport_error_reply =
     \<lparr>cb_error = Some ''ECONNREFUSED'', cb_response = None, cb_body = Unparsable\<rparr>"

text \<open>A state after a login, in which the global \<^verbatim>\<open>attempt\<close> is bound.\<close>

definition logged_in :: world where
  "logged_in =
     w0\<lparr>tokens_auth := Some ''Bearer T'', creds_user := Some ''user'', creds_pass := Some ''pass'',
        attempt := Some 0\<rparr>"

text \<open>A stream event whose handler neither writes nor reports.\<close>

fun is_quiet :: "stream_event \<Rightarrow> bool" where
  "is_quiet (OnResponse code) = True"
| "is_quiet OnEnd = True"
| "is_quiet e = False"

text \<open>
  A reply that a callback takes for a success: there is a response, its status is not
  401, and there is no error.
\<close>

definition accepted :: "reply \<Rightarrow> bool" where
  "accepted r =
     (case cb_response r of
        None \<Rightarrow> False
      | Some response \<Rightarrow> statusCode response \<noteq> 401 \<and> cb_error r = None)"

text \<open>The offsets that the upload's progress callback has recorded in a trace.\<close>

fun offsets_reported :: "event list \<Rightarrow> nat list" where
  "offsets_reported [] = []"
| "offsets_reported (OffsetReported n # es) = n # offsets_reported es"
| "offsets_reported (e # es) = offsets_reported es"

text \<open>
  A script for \<open>n\<close> session expiries in a row: each listing is answered with 401 and
  each login that follows succeeds; the last listing is answered with no entries.
\<close>

definition expiring :: "nat \<Rightarrow> reply list" where
  "expiring n =
     concat (replicate n [unauthorized_reply, ok_reply (no_fields\<lparr>id_token := Some ''T2''\<rparr>)])
     @ [ok_reply no_fields]"

text \<open>Counting in a trace.\<close>

fun is_list_request :: "event \<Rightarrow> bool" where
  "is_list_request (Sent (ListGet a f)) = True"
| "is_list_request e = False"

fun is_auth_request :: "event \<Rightarrow> bool" where
  "is_auth_request (Sent (AuthPost u p)) = True"
| "is_auth_request e = False"

fun is_chunk_put :: "event \<Rightarrow> bool" where
  "is_chunk_put (Sent (ChunkPut u off d a t b)) = True"
| "is_chunk_put e = False"

fun is_done_put :: "event \<Rightarrow> bool" where
  "is_done_put (Sent (ChunkPut u off d a t b)) = d"
| "is_done_put e = False"

section \<open>Properties of the path stack\<close>

lemma pathStack_enterDirectory_Some [simp]:
  "pathStack (enterDirectory (Some i) w) = pathStack w @ [i]"
  by (simp add: enterDirectory_def)

lemma enterDirectory_None [simp]: "enterDirectory None w = w"
  by (simp add: enterDirectory_def)

text \<open>
  C9, as the claim states it, fails: on the empty stack the exported getter answers
  \<^verbatim>\<open>undefined\<close>, not the string \<^verbatim>\<open>"root"\<close>.
\<close>

theorem getCurrentFolder_empty_not_root:
  "getCurrentFolder w0 = None \<and> getCurrentFolder w0 \<noteq> Some ''root''"
  by (simp add: getCurrentFolder_def w0_def)

text \<open>
  C9, amended: \<^verbatim>\<open>getCurrentFolder\<close> returns the identifier on top of the stack (the one
  entered last and not yet left) when the stack is non-empty, and \<^verbatim>\<open>undefined\<close> when it
  is empty; the sentinel \<^verbatim>\<open>"root"\<close> is what the operations that resolve their working
  folder substitute for the empty stack.
\<close>

theorem getCurrentFolder_top_or_undefined:
  "getCurrentFolder (w\<lparr>pathStack := []\<rparr>) = None \<and>
   getCurrentFolder (w\<lparr>pathStack := ps @ [i]\<rparr>) = Some i \<and>
   getCurrentFolder (enterDirectory (Some i) w) = Some i \<and>
   currentPath w = (case getCurrentFolder w of None \<Rightarrow> ''root'' | Some j \<Rightarrow> j)"
  by (simp add: getCurrentFolder_def currentPath_def)

section \<open>Properties of the supervisor\<close>

text \<open>
  An operation that fails on every call, whatever it does to the state otherwise, is
  run by the closure until the counter has passed the limit: \<open>tryLimit + 1\<close> times
  from a counter of 0.
\<close>

lemma callAbstracted_always_failing:
  assumes f: "\<And>w. f w = (Returned (Obj False Undefined), g w)"
    and g: "\<And>w. attempt (g w) = attempt w"
    and a: "attempt w = Some a"
    and c: "c \<le> Suc n"
  shows "callAbstracted n name f c w = (Returned (Obj False Undefined), Suc n, (g ^^ (Suc n - c)) w)"
  using a c
proof (induction "Suc n - c" arbitrary: c w)
  case 0
  then have "c = Suc n" by simp
  then show ?case by (simp add: callAbstracted.simps [of n name f "Suc n" w])
next
  case (Suc k)
  then have le: "c \<le> n" and k: "k = Suc n - Suc c" by simp_all
  have ga: "attempt (g w) = Some a" using g Suc.prems by simp
  have "callAbstracted n name f c w = callAbstracted n name f (Suc c) (g w)"
    using le Suc.prems by (simp add: callAbstracted.simps [of n name f c w] f)
  also have "\<dots> = (Returned (Obj False Undefined), Suc n, (g ^^ (Suc n - Suc c)) (g w))"
    using Suc.hyps(1) [OF k ga] le by simp
  also have "(g ^^ (Suc n - Suc c)) (g w) = (g ^^ (Suc n - c)) w"
    using le by (simp add: Suc_diff_le funpow_swap1)
  finally show ?case .
qed

text \<open>
  C1 at concrete inputs.  An upload of a local path that does not exist fails on every
  attempt with \<^verbatim>\<open>{ success: false }\<close>, a failure that is not a session failure: the
  closure leaves with its counter at 11, one more execution than the limit of 10, before
  the supervisor raises the error that says \<^verbatim>\<open>10 times\<close>.  A listing whose every reply
  carries an error is requested eleven times, the twelfth scripted reply is left.  And
  where no global \<^verbatim>\<open>attempt\<close> exists, the supervisor raises a \<^verbatim>\<open>ReferenceError\<close>
  before the first request.
\<close>

theorem retryLimited_eleventh_attempt:
  "callAbstracted 10 ''upload file'' (inner_uploadFile replay ''/no/such/file'' cb) 0 logged_in
     = (Returned (Obj False Undefined), 11, logged_in) \<and>
   retryLimited 10 ''upload file'' (inner_uploadFile replay ''/no/such/file'' cb) logged_in
     = (Raised (Error ''tried to upload file 10 times and failed''), logged_in) \<and>
   fst (listFiles (logged_in\<lparr>replies := replicate 12 failed_reply\<rparr>))
     = Raised (Error ''tried to list files 10 times and failed'') \<and>
   length (filter is_list_request
     (trace (snd (listFiles (logged_in\<lparr>replies := replicate 12 failed_reply\<rparr>))))) = 11 \<and>
   length (replies (snd (listFiles (logged_in\<lparr>replies := replicate 12 failed_reply\<rparr>)))) = 1 \<and>
   listFiles (logged_in\<lparr>attempt := None, replies := replicate 12 failed_reply\<rparr>)
     = (Raised (ReferenceError ''attempt is not defined''),
        logged_in\<lparr>attempt := None, replies := replicate 12 failed_reply\<rparr>)"
proof -
  have missing: "inner_uploadFile replay ''/no/such/file'' cb logged_in
      = (Returned (Obj False Undefined), logged_in)"
    by (simp add: inner_uploadFile_def logged_in_def w0_def)
  have att: "attempt logged_in = Some 0"
    by (simp add: logged_in_def w0_def)
  have run: "callAbstracted 10 ''upload file'' (inner_uploadFile replay ''/no/such/file'' cb) c logged_in
      = (Returned (Obj False Undefined), 11, logged_in)" if "c \<le> 11" for c
    using that
  proof (induction "11 - c" arbitrary: c)
    case 0
    then have "c = 11" by simp
    then show ?case
      by (simp add: callAbstracted.simps [of 10 _ _ 11 logged_in])
  next
    case (Suc k)
    then have "c \<le> 10" "k = 11 - Suc c" "Suc c \<le> 11" by simp_all
    with Suc.hyps(1) [of "Suc c"] missing att show ?case
      by (simp add: callAbstracted.simps [of 10 _ _ c logged_in])
  qed
  have up: "retryLimited 10 ''upload file'' (inner_uploadFile replay ''/no/such/file'' cb) logged_in
      = (Raised (Error ''tried to upload file 10 times and failed''), logged_in)"
    using run [of 0] by (simp add: retryLimited_def)
  have ls: "fst (listFiles (logged_in\<lparr>replies := replicate 12 failed_reply\<rparr>))
       = Raised (Error ''tried to list files 10 times and failed'') \<and>
     length (filter is_list_request
       (trace (snd (listFiles (logged_in\<lparr>replies := replicate 12 failed_reply\<rparr>))))) = 11 \<and>
     length (replies (snd (listFiles (logged_in\<lparr>replies := replicate 12 failed_reply\<rparr>)))) = 1 \<and>
     listFiles (logged_in\<lparr>attempt := None, replies := replicate 12 failed_reply\<rparr>)
       = (Raised (ReferenceError ''attempt is not defined''),
          logged_in\<lparr>attempt := None, replies := replicate 12 failed_reply\<rparr>)"
    by code_simp
  from run [of 0] up ls show ?thesis by simp
qed

lemma login_frame:
  assumes "login u p w = (x, w1)"
  shows "trace w1 = trace w @ [Sent (AuthPost u p)]" and "attempt w1 = attempt w"
    and "pathStack w1 = pathStack w" and "creds_user w1 = creds_user w"
    and "creds_pass w1 = creds_pass w"
  using assms
  by (auto simp: login_def send_def emit_def
      split: list.splits option.splits if_splits body.splits)

lemma authenticate_frame:
  assumes "authenticate u p w = (x, w1)"
  shows "trace w1 = trace w @ [Sent (AuthPost u p)]" and "attempt w1 = attempt w"
    and "pathStack w1 = pathStack w" and "creds_user w1 = u" and "creds_pass w1 = p"
  using assms login_frame [of u p "w\<lparr>creds_user := u, creds_pass := p\<rparr>" x w1]
  by (simp_all add: authenticate_def)

text \<open>
  C2, as the claim states it, fails: the replay after a session expiry does not go
  through the closure that counts.  Here the session expires eleven times in a row
  before a listing succeeds.  The supervisor returns the listing; its counter stands at
  1 at the end, while \<^verbatim>\<open>_listFiles\<close> has run twelve times (twelve list requests) with
  eleven re-authentications between them.  Under a shared ceiling of ten attempts the
  operation would have been given up.  And the replay waits for the re-authentication:
  when the login request is never answered, the one list request is followed by the one
  login request and by nothing else.
\<close>

theorem replay_outside_attempt_ceiling:
  "fst (callAbstracted 10 ''list files'' inner_listFiles 0 (logged_in\<lparr>replies := expiring 11\<rparr>))
     = Returned (Obj True (Entries [])) \<and>
   fst (snd (callAbstracted 10 ''list files'' inner_listFiles 0 (logged_in\<lparr>replies := expiring 11\<rparr>)))
     = 1 \<and>
   length (filter is_list_request (trace (snd (snd
     (callAbstracted 10 ''list files'' inner_listFiles 0 (logged_in\<lparr>replies := expiring 11\<rparr>))))))
     = 12 \<and>
   length (filter is_auth_request (trace (snd (snd
     (callAbstracted 10 ''list files'' inner_listFiles 0 (logged_in\<lparr>replies := expiring 11\<rparr>))))))
     = 11 \<and>
   fst (listFiles (logged_in\<lparr>replies := expiring 11\<rparr>)) = Returned (Entries []) \<and>
   fst (inner_listFiles (logged_in\<lparr>replies := [unauthorized_reply]\<rparr>)) = Hangs \<and>
   trace (snd (inner_listFiles (logged_in\<lparr>replies := [unauthorized_reply]\<rparr>)))
     = [Sent (ListGet (Some ''Bearer T'') ''root''),
        Sent (AuthPost (Some ''user'') (Some ''pass''))]"
  by code_simp

text \<open>The primitives leave the global \<^verbatim>\<open>attempt\<close> and the cached credentials alone.\<close>

lemma send_frame:
  "attempt (snd (send rq w)) = attempt w"
  "creds_user (snd (send rq w)) = creds_user w"
  "creds_pass (snd (send rq w)) = creds_pass w"
  by (simp_all add: send_def emit_def split: list.splits)

lemma ls_frame:
  "attempt (snd (ls a p w)) = attempt w \<and> creds_user (snd (ls a p w)) = creds_user w
     \<and> creds_pass (snd (ls a p w)) = creds_pass w"
  using send_frame [of "ListGet a p" w]
  by (auto simp: ls_def split: prod.splits option.splits body.splits)

lemma mkdir_frame:
  "attempt (snd (mkdir a p n w)) = attempt w \<and> creds_user (snd (mkdir a p n w)) = creds_user w
     \<and> creds_pass (snd (mkdir a p n w)) = creds_pass w"
  using send_frame [of "MkdirPost a p n" w]
  by (auto simp: mkdir_def split: prod.splits option.splits)

lemma getFileSize_frame:
  "attempt (snd (getFileSize a f w)) = attempt w \<and> creds_user (snd (getFileSize a f w)) = creds_user w
     \<and> creds_pass (snd (getFileSize a f w)) = creds_pass w"
  using send_frame [of "SizeGet a f" w]
  by (auto simp: getFileSize_def split: prod.splits option.splits body.splits)

lemma rm_frame:
  "attempt (snd (rm a i w)) = attempt w \<and> creds_user (snd (rm a i w)) = creds_user w
     \<and> creds_pass (snd (rm a i w)) = creds_pass w"
  by (auto simp: rm_def multipartMixed_def emit_def split: prod.splits list.splits outcome.splits)

lemma appendFileSync_frame:
  "appendFileSync p c w = Inr w1 \<Longrightarrow>
   attempt w1 = attempt w \<and> creds_user w1 = creds_user w \<and> creds_pass w1 = creds_pass w"
  by (auto simp: appendFileSync_def split: if_splits option.splits)

lemma dwl_events_frame:
  "attempt (snd (dwl_events p cb t evs off s w)) = attempt w
     \<and> creds_user (snd (dwl_events p cb t evs off s w)) = creds_user w
     \<and> creds_pass (snd (dwl_events p cb t evs off s w)) = creds_pass w"
proof (induction p cb t evs off s w rule: dwl_events.induct)
  case (4 localPath progressCallback totalSize chunk evs offset settled w)
  show ?case
  proof (cases "appendFileSync localPath chunk w")
    case (Inl e)
    then show ?thesis by simp
  next
    case (Inr w1)
    with "4" [OF Inr] appendFileSync_frame [OF Inr] show ?thesis by simp
  qed
qed (auto split: option.splits)

lemma dwl_frame:
  "attempt (snd (dwl a f p cb w)) = attempt w \<and> creds_user (snd (dwl a f p cb w)) = creds_user w
     \<and> creds_pass (snd (dwl a f p cb w)) = creds_pass w"
proof (cases a)
  case None
  then show ?thesis by (simp add: dwl_def)
next
  case (Some t)
  obtain x w1 where g: "getFileSize a f w = (x, w1)" by (cases "getFileSize a f w")
  then have w1: "attempt w1 = attempt w" "creds_user w1 = creds_user w" "creds_pass w1 = creds_pass w"
    using getFileSize_frame [of a f w] by simp_all
  show ?thesis
  proof (cases x)
    case (Returned sizeData)
    with Some g w1 show ?thesis
      by (cases "streams w1") (simp_all add: dwl_def emit_def dwl_events_frame)
  qed (use Some g w1 in \<open>simp_all add: dwl_def\<close>)
qed

text \<open>A record that reports a session failure is neither a success nor an error.\<close>

lemma ls_expiry:
  "ls a p w = (Returned r, w1) \<Longrightarrow> \<not> session r \<Longrightarrow> \<not> truthy_success r \<and> \<not> truthy_error r"
  by (auto simp: ls_def session_expired_def failed_with_def succeeded_def truthy_success_def
      truthy_error_def split: prod.splits option.splits if_splits body.splits)

lemma mkdir_expiry:
  "mkdir a p n w = (Returned r, w1) \<Longrightarrow> \<not> session r \<Longrightarrow> \<not> truthy_success r \<and> \<not> truthy_error r"
  by (auto simp: mkdir_def session_expired_def failed_with_def succeeded_def truthy_success_def
      truthy_error_def split: prod.splits option.splits if_splits)

lemma getFileSize_expiry:
  "getFileSize a f w = (Returned r, w1) \<Longrightarrow> \<not> session r \<Longrightarrow> \<not> truthy_success r \<and> \<not> truthy_error r"
  by (auto simp: getFileSize_def session_expired_misspelt_def failed_with_def succeeded_def
      truthy_success_def truthy_error_def split: prod.splits option.splits if_splits body.splits)

lemma multipartMixed_events_expiry:
  "multipartMixed_events evs reg cd settled = Returned r \<Longrightarrow>
   (\<forall>r0. settled = Some r0 \<longrightarrow> \<not> session r0 \<longrightarrow> success r0 = Some False \<and> error r0 = None) \<Longrightarrow>
   \<not> session r \<Longrightarrow> success r = Some False \<and> error r = None"
proof (induction evs reg cd settled rule: multipartMixed_events.induct)
  case (1 registered currentData settled)
  then show ?case by (auto split: option.splits)
next
  case (2 code evs registered currentData settled)
  then show ?case by (cases settled) (auto simp: resolve_def split: if_splits)
next
  case (3 d evs registered currentData settled)
  then show ?case by (auto split: option.splits)
next
  case (4 e evs registered currentData settled)
  then show ?case by (cases settled) (auto simp: resolve_def split: option.splits)
next
  case (5 evs registered currentData settled)
  then show ?case by (cases settled) (auto simp: resolve_def split: option.splits)
qed

lemma rm_expiry:
  "rm a i w = (Returned r, w1) \<Longrightarrow> \<not> session r \<Longrightarrow> \<not> truthy_success r \<and> \<not> truthy_error r"
  using multipartMixed_events_expiry [of _ None "[]" None]
  by (auto simp: rm_def multipartMixed_def truthy_success_def truthy_error_def
      prim_result.truncate_def
      split: prod.splits list.splits outcome.splits if_splits)


lemma dwl_events_expiry:
  "dwl_events p cb t evs off settled w = (Returned r, w1) \<Longrightarrow>
   (\<forall>r0. settled = Some r0 \<longrightarrow> \<not> session r0 \<longrightarrow> \<not> truthy_success r0 \<and> \<not> truthy_error r0) \<Longrightarrow>
   \<not> session r \<Longrightarrow> \<not> truthy_success r \<and> \<not> truthy_error r"
proof (induction p cb t evs off settled w rule: dwl_events.induct)
  case (1 localPath progressCallback totalSize offset settled w)
  then show ?case by (auto split: option.splits)
next
  case (2 localPath progressCallback totalSize code evs offset settled w)
  then show ?case
    by (cases settled)
       (auto simp: resolve_def session_expired_misspelt_def truthy_success_def truthy_error_def
        split: if_splits)
next
  case (3 localPath progressCallback totalSize e evs offset settled w)
  then show ?case by simp
next
  case (4 localPath progressCallback totalSize chunk evs offset settled w)
  then show ?case by (auto split: sum.splits)
next
  case (5 localPath progressCallback totalSize evs offset settled w)
  then show ?case
    by (cases settled) (auto simp: resolve_def succeeded_def)
qed

lemma dwl_expiry:
  assumes "dwl a f p cb w = (Returned r, w1)" and "\<not> session r"
  shows "\<not> truthy_success r \<and> \<not> truthy_error r"
proof (cases a)
  case None
  with assms show ?thesis by (simp add: dwl_def)
next
  case (Some t)
  obtain x wg where g: "getFileSize a f w = (x, wg)" by (cases "getFileSize a f w")
  show ?thesis
  proof (cases x)
    case (Returned sizeData)
    show ?thesis
    proof (cases "truthy_success sizeData")
      case False
      with assms Some g Returned have "r = sizeData" by (simp add: dwl_def)
      with getFileSize_expiry [OF g [unfolded Returned]] assms(2) show ?thesis by simp
    next
      case True
      show ?thesis
      proof (cases "streams wg")
        case Nil
        with assms Some g Returned True show ?thesis by (simp add: dwl_def)
      next
        case (Cons evs rest)
        with assms Some g Returned True
        have "dwl_events p cb (result sizeData) evs 0 None
            ((emit (Sent (ContentGet (drop 7 t) f)) wg)\<lparr>streams := rest\<rparr>) = (Returned r, w1)"
          by (simp add: dwl_def)
        from dwl_events_expiry [OF this _ assms(2)] show ?thesis by simp
      qed
    qed
  qed (use assms Some g in \<open>simp_all add: dwl_def\<close>)
qed

text \<open>The re-authentication never rejects; neither does the directory creation.\<close>

lemma authenticate_not_Raised: "fst (authenticate u p w) \<noteq> Raised e"
  by (auto simp: authenticate_def login_def send_def
      split: list.splits option.splits body.splits)

lemma mkdir_not_Raised: "fst (mkdir a p n w) \<noteq> Raised e"
  by (auto simp: mkdir_def send_def split: list.splits option.splits)

lemma authRetry_Returned:
  "authenticate (creds_user w) (creds_pass w) w = (Returned b, w2) \<Longrightarrow> authRetry f w = f w2"
  by (simp add: authRetry_def)

lemma inner_createDirectory_not_Raised: "fst (inner_createDirectory d w) \<noteq> Raised e"
proof -
  obtain x y where m: "mkdir (tokens_auth w) (currentPath w) d w = (x, y)"
    by (cases "mkdir (tokens_auth w) (currentPath w) d w")
  then have "x \<noteq> Raised e" using mkdir_not_Raised [of "tokens_auth w" "currentPath w" d w e] by simp
  with m show ?thesis
    by (cases x)
       (auto simp: inner_createDirectory.simps [of d w] split: prod.splits outcome.splits)
qed

lemma inner_createDirectory_replay:
  assumes "mkdir (tokens_auth w) (currentPath w) d w = (Returned r, w1)"
    and "\<not> truthy_success r" and "\<not> truthy_error r"
    and "authenticate (creds_user w1) (creds_pass w1) w1 = (Returned b, w2)"
  shows "inner_createDirectory d w = inner_createDirectory d w2"
proof -
  have ar: "authRetry (inner_createDirectory d) w1 = inner_createDirectory d w2"
    using assms(4) by (rule authRetry_Returned)
  obtain x y where x: "inner_createDirectory d w2 = (x, y)"
    by (cases "inner_createDirectory d w2")
  then have nr: "\<And>e. x \<noteq> Raised e" using inner_createDirectory_not_Raised [of d w2] by simp
  show ?thesis
  proof (cases x)
    case (Raised e)
    with nr show ?thesis by blast
  qed (use assms(1-3) ar x in \<open>simp_all add: inner_createDirectory.simps [of d w]\<close>)
qed

lemma replay_same_counter:
  assumes "f w = f w2" and "attempt w2 = attempt w" and "attempt w \<noteq> None" and "c \<le> L"
  shows "callAbstracted L n f c w = callAbstracted L n f c w2"
  using assms
  by (auto simp: callAbstracted.simps [of L n f c w] callAbstracted.simps [of L n f c w2])

lemma ls_trace: "ls a p w = (x, w1) \<Longrightarrow> trace w1 = trace w @ [Sent (ListGet a p)]"
  by (auto simp: ls_def send_def emit_def
      split: list.splits option.splits if_splits body.splits)

lemma replay_after_expiry:
  assumes op: "\<And>b. a = Returned b \<Longrightarrow> operation w = operation w2"
    and fr: "attempt w1 = attempt w"
    and au: "authenticate (creds_user w) (creds_pass w) w1 = (a, w2)"
  shows "trace w2 = trace w1 @ [Sent (AuthPost (creds_user w) (creds_pass w))] \<and>
         (\<forall>b. a = Returned b \<longrightarrow>
            operation w = operation w2 \<and>
            (attempt w \<noteq> None \<and> tryCounter \<le> tryLimit \<longrightarrow>
               callAbstracted tryLimit actionName operation tryCounter w
                 = callAbstracted tryLimit actionName operation tryCounter w2))"
proof -
  have tr: "trace w2 = trace w1 @ [Sent (AuthPost (creds_user w) (creds_pass w))]"
    and att: "attempt w2 = attempt w"
    using authenticate_frame(1,2) [OF au] fr by simp_all
  have "callAbstracted tryLimit actionName operation tryCounter w
          = callAbstracted tryLimit actionName operation tryCounter w2"
    if "a = Returned b" "attempt w \<noteq> None" "tryCounter \<le> tryLimit" for b
    using replay_same_counter [OF op [OF that(1)] att that(2,3)] .
  with tr op show ?thesis by blast
qed

text \<open>
  C2, amended: whenever a primitive (\<^verbatim>\<open>ls\<close>, \<^verbatim>\<open>mkdir\<close>, \<^verbatim>\<open>rm\<close>, \<^verbatim>\<open>dwl\<close>) reports a
  session expiry, a record with \<^verbatim>\<open>session\<close> false, to its retryable operation
  (\<^verbatim>\<open>_listFiles\<close>, \<^verbatim>\<open>_createDirectory\<close>, \<^verbatim>\<open>_removeFile\<close>, \<^verbatim>\<open>_downloadFile\<close>), exactly one
  re-authentication with the cached credentials is performed (one login request, with
  \<^verbatim>\<open>creds.user\<close> and \<^verbatim>\<open>creds.pass\<close>, right after the primitive; for \<^verbatim>\<open>ls\<close>, right
  after the list request), and when that re-authentication call returns, with either
  result, the original high-level operation, not just the low-level primitive, is
  re-invoked from its start in the state the re-authentication leaves.  The replay
  happens inside the same attempt of the supervisor: it runs under the counter value
  that the expired call ran under, and consumes no slot of the attempt ceiling.
\<close>

theorem session_expiry_replays_within_attempt:
  assumes au: "authenticate (creds_user w) (creds_pass w) w1 = (a, w2)"
  shows
    "(ls (tokens_auth w) (currentPath w) w = (Returned r, w1) \<and> \<not> session r \<longrightarrow>
        trace w1 = trace w @ [Sent (ListGet (tokens_auth w) (currentPath w))] \<and>
        trace w2 = trace w1 @ [Sent (AuthPost (creds_user w) (creds_pass w))] \<and>
        (\<forall>b. a = Returned b \<longrightarrow>
           inner_listFiles w = inner_listFiles w2 \<and>
           (attempt w \<noteq> None \<and> tryCounter \<le> tryLimit \<longrightarrow>
              callAbstracted tryLimit actionName inner_listFiles tryCounter w
                = callAbstracted tryLimit actionName inner_listFiles tryCounter w2))) \<and>
     (mkdir (tokens_auth w) (currentPath w) dirName w = (Returned r, w1) \<and> \<not> session r \<longrightarrow>
        trace w2 = trace w1 @ [Sent (AuthPost (creds_user w) (creds_pass w))] \<and>
        (\<forall>b. a = Returned b \<longrightarrow>
           inner_createDirectory dirName w = inner_createDirectory dirName w2 \<and>
           (attempt w \<noteq> None \<and> tryCounter \<le> tryLimit \<longrightarrow>
              callAbstracted tryLimit actionName (inner_createDirectory dirName) tryCounter w
                = callAbstracted tryLimit actionName (inner_createDirectory dirName) tryCounter w2))) \<and>
     (rm (tokens_auth w) fileID w = (Returned r, w1) \<and> \<not> session r \<longrightarrow>
        trace w2 = trace w1 @ [Sent (AuthPost (creds_user w) (creds_pass w))] \<and>
        (\<forall>b. a = Returned b \<longrightarrow>
           inner_removeFile fileID w = inner_removeFile fileID w2 \<and>
           (attempt w \<noteq> None \<and> tryCounter \<le> tryLimit \<longrightarrow>
              callAbstracted tryLimit actionName (inner_removeFile fileID) tryCounter w
                = callAbstracted tryLimit actionName (inner_removeFile fileID) tryCounter w2))) \<and>
     (dwl (tokens_auth w) fileID localFilePath (download_progress progressCallback) w
          = (Returned r, w1) \<and> \<not> session r \<longrightarrow>
        trace w2 = trace w1 @ [Sent (AuthPost (creds_user w) (creds_pass w))] \<and>
        (\<forall>b. a = Returned b \<longrightarrow>
           inner_downloadFile fileID localFilePath progressCallback w
             = inner_downloadFile fileID localFilePath progressCallback w2 \<and>
           (attempt w \<noteq> None \<and> tryCounter \<le> tryLimit \<longrightarrow>
              callAbstracted tryLimit actionName
                  (inner_downloadFile fileID localFilePath progressCallback) tryCounter w
                = callAbstracted tryLimit actionName
                    (inner_downloadFile fileID localFilePath progressCallback) tryCounter w2)))"
proof -
  let ?replayed = "\<lambda>operation.
      trace w2 = trace w1 @ [Sent (AuthPost (creds_user w) (creds_pass w))] \<and>
      (\<forall>b. a = Returned b \<longrightarrow>
         operation w = operation w2 \<and>
         (attempt w \<noteq> None \<and> tryCounter \<le> tryLimit \<longrightarrow>
            callAbstracted tryLimit actionName operation tryCounter w
              = callAbstracted tryLimit actionName operation tryCounter w2))"
  have c1: "trace w1 = trace w @ [Sent (ListGet (tokens_auth w) (currentPath w))]
      \<and> ?replayed inner_listFiles"
    if p: "ls (tokens_auth w) (currentPath w) w = (Returned r, w1)" and s: "\<not> session r"
  proof -
    have fr: "attempt w1 = attempt w" "creds_user w1 = creds_user w" "creds_pass w1 = creds_pass w"
      using ls_frame [of "tokens_auth w" "currentPath w" w] p by simp_all
    have "inner_listFiles w = inner_listFiles w2" if "a = Returned b" for b
      using p ls_expiry [OF p s] authRetry_Returned [of w1 b w2 inner_listFiles] au fr that
      by (simp add: inner_listFiles.simps [of w])
    then have "?replayed inner_listFiles"
      using fr(1) au by (rule replay_after_expiry)
    with ls_trace [OF p] show ?thesis by simp
  qed
  have c2: "?replayed (inner_createDirectory dirName)"
    if p: "mkdir (tokens_auth w) (currentPath w) dirName w = (Returned r, w1)"
      and s: "\<not> session r"
  proof -
    have fr: "attempt w1 = attempt w" "creds_user w1 = creds_user w" "creds_pass w1 = creds_pass w"
      using mkdir_frame [of "tokens_auth w" "currentPath w" dirName w] p by simp_all
    have "inner_createDirectory dirName w = inner_createDirectory dirName w2"
      if "a = Returned b" for b
      using inner_createDirectory_replay [OF p, of b w2] mkdir_expiry [OF p s] au fr that by simp
    then show ?thesis
      using fr(1) au by (rule replay_after_expiry)
  qed
  have c3: "?replayed (inner_removeFile fileID)"
    if p: "rm (tokens_auth w) fileID w = (Returned r, w1)" and s: "\<not> session r"
  proof -
    have fr: "attempt w1 = attempt w" "creds_user w1 = creds_user w" "creds_pass w1 = creds_pass w"
      using rm_frame [of "tokens_auth w" fileID w] p by simp_all
    have "inner_removeFile fileID w = inner_removeFile fileID w2" if "a = Returned b" for b
      using p rm_expiry [OF p s] authRetry_Returned [of w1 b w2 "inner_removeFile fileID"]
        au fr that
      by (simp add: inner_removeFile.simps [of fileID w])
    then show ?thesis
      using fr(1) au by (rule replay_after_expiry)
  qed
  have c4: "?replayed (inner_downloadFile fileID localFilePath progressCallback)"
    if p: "dwl (tokens_auth w) fileID localFilePath (download_progress progressCallback) w
        = (Returned r, w1)" and s: "\<not> session r"
  proof -
    have fr: "attempt w1 = attempt w" "creds_user w1 = creds_user w" "creds_pass w1 = creds_pass w"
      using dwl_frame [of "tokens_auth w" fileID localFilePath
          "download_progress progressCallback" w] p
      by simp_all
    have "inner_downloadFile fileID localFilePath progressCallback w
        = inner_downloadFile fileID localFilePath progressCallback w2" if "a = Returned b" for b
      using p dwl_expiry [OF p s]
        authRetry_Returned [of w1 b w2 "inner_downloadFile fileID localFilePath progressCallback"]
        au fr that
      by (simp add: inner_downloadFile.simps [of fileID localFilePath progressCallback w])
    then show ?thesis
      using fr(1) au by (rule replay_after_expiry)
  qed
  show ?thesis
    apply (rule conjI)
     apply (rule impI, erule conjE, rule c1, assumption, assumption)
    apply (rule conjI)
     apply (rule impI, erule conjE, rule c2, assumption, assumption)
    apply (rule conjI)
     apply (rule impI, erule conjE, rule c3, assumption, assumption)
    apply (rule impI, erule conjE, rule c4, assumption, assumption)
    done
qed

theorem session_expiry_replays_within_attempt_witness:
  "authenticate (creds_user (logged_in\<lparr>replies := expiring 1\<rparr>))
      (creds_pass (logged_in\<lparr>replies := expiring 1\<rparr>))
      (logged_in\<lparr>replies := [ok_reply (no_fields\<lparr>id_token := Some ''T2''\<rparr>), ok_reply no_fields],
                 trace := [Sent (ListGet (Some ''Bearer T'') ''root'')]\<rparr>)
     = (Returned True,
        logged_in\<lparr>tokens_auth := Some ''Bearer T2'', replies := [ok_reply no_fields],
          trace := [Sent (ListGet (Some ''Bearer T'') ''root''),
                    Sent (AuthPost (Some ''user'') (Some ''pass''))]\<rparr>) \<and>
   ls (tokens_auth (logged_in\<lparr>replies := expiring 1\<rparr>))
      (currentPath (logged_in\<lparr>replies := expiring 1\<rparr>)) (logged_in\<lparr>replies := expiring 1\<rparr>)
     = (Returned session_expired,
        logged_in\<lparr>replies := [ok_reply (no_fields\<lparr>id_token := Some ''T2''\<rparr>), ok_reply no_fields],
                 trace := [Sent (ListGet (Some ''Bearer T'') ''root'')]\<rparr>) \<and>
   \<not> session session_expired \<and>
   attempt (logged_in\<lparr>replies := expiring 1\<rparr>) \<noteq> None \<and> (0::nat) \<le> 10 \<and>
   inner_listFiles (logged_in\<lparr>replies := expiring 1\<rparr>)
     = inner_listFiles (logged_in\<lparr>tokens_auth := Some ''Bearer T2'', replies := [ok_reply no_fields],
          trace := [Sent (ListGet (Some ''Bearer T'') ''root''),
                    Sent (AuthPost (Some ''user'') (Some ''pass''))]\<rparr>) \<and>
   callAbstracted 10 ''list files'' inner_listFiles 0 (logged_in\<lparr>replies := expiring 1\<rparr>)
     = callAbstracted 10 ''list files'' inner_listFiles 0
         (logged_in\<lparr>tokens_auth := Some ''Bearer T2'', replies := [ok_reply no_fields],
          trace := [Sent (ListGet (Some ''Bearer T'') ''root''),
                    Sent (AuthPost (Some ''user'') (Some ''pass''))]\<rparr>) \<and>
   dwl (tokens_auth (logged_in\<lparr>replies := expiring 1\<rparr>)) ''F'' ''/tmp/f''
      (download_progress (\<lambda>q. [PercentReported q])) (logged_in\<lparr>replies := expiring 1\<rparr>)
     = (Returned session_expired_misspelt,
        logged_in\<lparr>replies := [ok_reply (no_fields\<lparr>id_token := Some ''T2''\<rparr>), ok_reply no_fields],
                 trace := [Sent (SizeGet (Some ''Bearer T'') ''F'')]\<rparr>) \<and>
   inner_downloadFile ''F'' ''/tmp/f'' (\<lambda>q. [PercentReported q]) (logged_in\<lparr>replies := expiring 1\<rparr>)
     = inner_downloadFile ''F'' ''/tmp/f'' (\<lambda>q. [PercentReported q])
         (logged_in\<lparr>tokens_auth := Some ''Bearer T2'', replies := [ok_reply no_fields],
          trace := [Sent (SizeGet (Some ''Bearer T'') ''F''),
                    Sent (AuthPost (Some ''user'') (Some ''pass''))]\<rparr>)"
proof -
  let ?w = "logged_in\<lparr>replies := expiring 1\<rparr>"
  let ?rs = "[ok_reply (no_fields\<lparr>id_token := Some ''T2''\<rparr>), ok_reply no_fields]"
  let ?w1 = "logged_in\<lparr>replies := ?rs, trace := [Sent (ListGet (Some ''Bearer T'') ''root'')]\<rparr>"
  let ?w2 = "logged_in\<lparr>tokens_auth := Some ''Bearer T2'', replies := [ok_reply no_fields],
          trace := [Sent (ListGet (Some ''Bearer T'') ''root''),
                    Sent (AuthPost (Some ''user'') (Some ''pass''))]\<rparr>"
  let ?d1 = "logged_in\<lparr>replies := ?rs, trace := [Sent (SizeGet (Some ''Bearer T'') ''F'')]\<rparr>"
  let ?d2 = "logged_in\<lparr>tokens_auth := Some ''Bearer T2'', replies := [ok_reply no_fields],
          trace := [Sent (SizeGet (Some ''Bearer T'') ''F''),
                    Sent (AuthPost (Some ''user'') (Some ''pass''))]\<rparr>"
  have au: "authenticate (creds_user ?w) (creds_pass ?w) ?w1 = (Returned True, ?w2)"
    by (simp add: authenticate_def login_def send_def emit_def logged_in_def w0_def
        ok_reply_def no_fields_def)
  have p: "ls (tokens_auth ?w) (currentPath ?w) ?w = (Returned session_expired, ?w1)
      \<and> \<not> session session_expired"
    by (simp add: ls_def send_def emit_def logged_in_def w0_def expiring_def
        unauthorized_reply_def currentPath_def session_expired_def)
  have at: "attempt ?w \<noteq> None \<and> (0::nat) \<le> 10"
    by (simp add: logged_in_def w0_def)
  note l = session_expiry_replays_within_attempt [OF au, where r = session_expired
      and tryCounter = 0 and tryLimit = 10 and actionName = "''list files''",
      THEN conjunct1, THEN mp, OF p, THEN conjunct2, THEN conjunct2, THEN spec,
      THEN mp, OF refl]
  have l1: "inner_listFiles ?w = inner_listFiles ?w2"
    using l by (rule conjunct1)
  have l2: "callAbstracted 10 ''list files'' inner_listFiles 0 ?w
      = callAbstracted 10 ''list files'' inner_listFiles 0 ?w2"
    using l [THEN conjunct2, THEN mp, OF at] .
  have aud: "authenticate (creds_user ?w) (creds_pass ?w) ?d1 = (Returned True, ?d2)"
    by (simp add: authenticate_def login_def send_def emit_def logged_in_def w0_def
        ok_reply_def no_fields_def)
  have pd: "dwl (tokens_auth ?w) ''F'' ''/tmp/f'' (download_progress (\<lambda>q. [PercentReported q])) ?w
        = (Returned session_expired_misspelt, ?d1)
      \<and> \<not> session session_expired_misspelt"
    by (simp add: dwl_def getFileSize_def send_def emit_def logged_in_def w0_def expiring_def
        unauthorized_reply_def session_expired_misspelt_def truthy_success_def)
  note d = session_expiry_replays_within_attempt [OF aud, where r = session_expired_misspelt
      and fileID = "''F''" and localFilePath = "''/tmp/f''"
      and progressCallback = "\<lambda>q. [PercentReported q]",
      THEN conjunct2, THEN conjunct2, THEN conjunct2, THEN mp, OF pd, THEN conjunct2, THEN spec,
      THEN mp, OF refl, THEN conjunct1]
  from au p at l1 l2 pd d show ?thesis
    by (simp only: simp_thms)
qed

section \<open>Properties of the primitives\<close>

text \<open>
  When the callback is called without a response, each primitive that reads
  \<^verbatim>\<open>response.statusCode\<close> first throws inside the callback.
\<close>

lemma no_response_throws:
  assumes "replies w = r # rs" and "cb_response r = None"
  shows "fst (ls a p w) = Uncaught no_response"
    and "fst (mkdir a p n w) = Uncaught no_response"
    and "fst (getFileSize a f w) = Uncaught no_response"
    and "fst (login u pw w) = Uncaught no_response"
  using assms by (simp_all add: ls_def mkdir_def getFileSize_def login_def send_def)

text \<open>
  When there is a response, the record that \<^verbatim>\<open>ls\<close> returns has \<open>session = False\<close>
  exactly for the status 401.
\<close>

lemma ls_session_flag:
  assumes "replies w = r # rs" and "cb_response r = Some response"
    and "ls a p w = (Returned x, w1)"
  shows "session x = (statusCode response \<noteq> 401)"
  using assms
  by (auto simp: ls_def send_def session_expired_def failed_with_def succeeded_def
      split: if_splits body.splits option.splits)

text \<open>
  C3 at a concrete input: a transport error, where the callback gets an error and no
  response.  None of \<^verbatim>\<open>ls\<close>, \<^verbatim>\<open>mkdir\<close> and \<^verbatim>\<open>getFileSize\<close> returns a record: each
  throws a \<^verbatim>\<open>TypeError\<close> inside its callback, and its promise is never settled.
\<close>

theorem primitives_throw_on_transport_error:
  "fst (ls (Some ''Bearer T'') ''root'' (logged_in\<lparr>replies := [transport_error_reply]\<rparr>))
     = Uncaught no_response \<and>
   fst (mkdir (Some ''Bearer T'') ''root'' ''photos'' (logged_in\<lparr>replies := [transport_error_reply]\<rparr>))
     = Uncaught no_response \<and>
   fst (getFileSize (Some ''Bearer T'') ''F'' (logged_in\<lparr>replies := [transport_error_reply]\<rparr>))
     = Uncaught no_response"
  by code_simp

section \<open>Properties of the authenticator\<close>

text \<open>
  C10, as the claim states it, fails: a call that is answered with 401 returns
  \<^verbatim>\<open>false\<close> and has replaced the cached user name and password by its arguments.
\<close>

theorem authenticate_failed_overwrites_creds:
  "fst (authenticate (Some ''other'') (Some ''wrong'') (logged_in\<lparr>replies := [unauthorized_reply]\<rparr>))
     = Returned False \<and>
   creds_user logged_in = Some ''user'' \<and> creds_pass logged_in = Some ''pass'' \<and>
   creds_user (snd (authenticate (Some ''other'') (Some ''wrong'')
     (logged_in\<lparr>replies := [unauthorized_reply]\<rparr>))) = Some ''other'' \<and>
   creds_pass (snd (authenticate (Some ''other'') (Some ''wrong'')
     (logged_in\<lparr>replies := [unauthorized_reply]\<rparr>))) = Some ''wrong''"
  by code_simp

text \<open>
  C10, amended: an authentication attempt that is answered with HTTP 401 returns
  \<^verbatim>\<open>false\<close> without raising and leaves the stored session token unchanged; the user
  name and password are cached at the start of every call, before the request is sent,
  so after the failed call the cached credentials are those of that call.
\<close>

theorem authenticate_unauthorized:
  assumes "replies w = r # rs" and "cb_response r = Some response"
    and "statusCode response = 401"
  shows "fst (authenticate username password w) = Returned False \<and>
         tokens_auth (snd (authenticate username password w)) = tokens_auth w \<and>
         creds_user (snd (authenticate username password w)) = username \<and>
         creds_pass (snd (authenticate username password w)) = password"
  using assms by (simp add: authenticate_def login_def send_def emit_def)

theorem authenticate_unauthorized_witness:
  "replies (logged_in\<lparr>replies := [unauthorized_reply]\<rparr>) = unauthorized_reply # [] \<and>
   cb_response unauthorized_reply = Some \<lparr>statusCode = 401, location = None\<rparr> \<and>
   statusCode \<lparr>statusCode = 401, location = None\<rparr> = 401 \<and>
   fst (authenticate (Some ''other'') (Some ''wrong'') (logged_in\<lparr>replies := [unauthorized_reply]\<rparr>))
     = Returned False \<and>
   tokens_auth (snd (authenticate (Some ''other'') (Some ''wrong'')
     (logged_in\<lparr>replies := [unauthorized_reply]\<rparr>))) = Some ''Bearer T''"
proof -
  have h1: "replies (logged_in\<lparr>replies := [unauthorized_reply]\<rparr>) = unauthorized_reply # []"
    by simp
  have h2: "cb_response unauthorized_reply = Some \<lparr>statusCode = 401, location = None\<rparr>"
    by (simp add: unauthorized_reply_def)
  have h3: "statusCode \<lparr>statusCode = 401, location = None\<rparr> = 401"
    by simp
  show ?thesis
    using authenticate_unauthorized [OF h1 h2 h3, of "Some ''other''" "Some ''wrong''"] h1 h2 h3
    by (simp add: logged_in_def w0_def)
qed

section \<open>Properties of the download\<close>

text \<open>
  A stream without \<^verbatim>\<open>data\<close> and \<^verbatim>\<open>error\<close> events leaves the state as it is: nothing
  is appended and the progress callback is not called.
\<close>

lemma dwl_events_quiet:
  "list_all is_quiet evs \<Longrightarrow> snd (dwl_events p cb t evs off s w) = w"
  by (induction p cb t evs off s w rule: dwl_events.induct) (auto split: option.splits)

text \<open>
  C7 at a concrete input: the size query answers 0 and the stream has a response and an
  end, with no data.  \<^verbatim>\<open>_downloadFile\<close> returns a success; no progress callback has
  been called, so no 100 has been reported, and the local file system is as before: the
  destination file has not been created.
\<close>

theorem download_zero_byte_no_progress_no_file:
  "fst (inner_downloadFile ''F'' ''/tmp/f'' (\<lambda>q. [PercentReported q])
      (logged_in\<lparr>replies := [ok_reply (no_fields\<lparr>size_json := Some 0\<rparr>)],
                 streams := [[OnResponse 200, OnEnd]]\<rparr>))
     = Returned (Obj True (Bool True)) \<and>
   trace (snd (inner_downloadFile ''F'' ''/tmp/f'' (\<lambda>q. [PercentReported q])
      (logged_in\<lparr>replies := [ok_reply (no_fields\<lparr>size_json := Some 0\<rparr>)],
                 streams := [[OnResponse 200, OnEnd]]\<rparr>)))
     = [Sent (SizeGet (Some ''Bearer T'') ''F''), Sent (ContentGet ''T'' ''F'')] \<and>
   local_files (snd (inner_downloadFile ''F'' ''/tmp/f'' (\<lambda>q. [PercentReported q])
      (logged_in\<lparr>replies := [ok_reply (no_fields\<lparr>size_json := Some 0\<rparr>)],
                 streams := [[OnResponse 200, OnEnd]]\<rparr>)))
     = []"
  by code_simp

section \<open>Properties of the recursive download\<close>

text \<open>None of the operations below the tree walk touches the path stack.\<close>

lemma send_pathStack: "pathStack (snd (send rq w)) = pathStack w"
  by (simp add: send_def emit_def split: list.splits)

lemma ls_pathStack: "pathStack (snd (ls a p w)) = pathStack w"
  using send_pathStack [of "ListGet a p" w]
  by (auto simp: ls_def split: prod.splits option.splits body.splits)

lemma getFileSize_pathStack: "pathStack (snd (getFileSize a f w)) = pathStack w"
  using send_pathStack [of "SizeGet a f" w]
  by (auto simp: getFileSize_def split: prod.splits option.splits body.splits)

lemma authRetry_pathStack:
  assumes "\<And>w. pathStack (snd (f w)) = pathStack w"
  shows "pathStack (snd (authRetry f w)) = pathStack w"
proof -
  obtain a w1 where au: "authenticate (creds_user w) (creds_pass w) w = (a, w1)"
    by (cases "authenticate (creds_user w) (creds_pass w) w")
  then have "pathStack w1 = pathStack w" using authenticate_frame(3) by blast
  with au assms [of w1] show ?thesis
    by (cases a) (simp_all add: authRetry_def)
qed


lemma inner_listFiles_pathStack: "pathStack (snd (inner_listFiles w)) = pathStack w"
proof (induction "length (replies w)" arbitrary: w rule: less_induct)
  case less
  obtain x y where l: "ls (tokens_auth w) (currentPath w) w = (x, y)"
    by (cases "ls (tokens_auth w) (currentPath w) w")
  then have y: "pathStack y = pathStack w"
    using ls_pathStack [of "tokens_auth w" "currentPath w" w] by simp
  show ?case
  proof (cases x)
    case (Returned r)
    show ?thesis
    proof (cases "truthy_success r \<or> truthy_error r")
      case True
      with l Returned y show ?thesis
        by (auto simp: inner_listFiles.simps [of w])
    next
      case False
      have shorter: "length (replies y) < length (replies w)"
        using l Returned by (simp add: ls_replies)
      obtain a w1 where au: "authenticate (creds_user y) (creds_pass y) y = (a, w1)"
        by (cases "authenticate (creds_user y) (creds_pass y) y")
      have w1: "pathStack w1 = pathStack y"
        using authenticate_frame(3) [OF au] .
      have "length (replies w1) < length (replies w)"
        using authenticate_replies [OF au] shorter by simp
      then have "pathStack (snd (inner_listFiles w1)) = pathStack w1"
        by (rule less.hyps)
      with au w1 have "pathStack (snd (authRetry inner_listFiles y)) = pathStack y"
        by (cases a) (simp_all add: authRetry_def)
      with l Returned False y show ?thesis
        by (simp add: inner_listFiles.simps [of w])
    qed
  next
    case (Raised e)
    with l y show ?thesis by (simp add: inner_listFiles.simps [of w])
  next
    case (Uncaught e)
    with l y show ?thesis by (simp add: inner_listFiles.simps [of w])
  next
    case Hangs
    with l y show ?thesis by (simp add: inner_listFiles.simps [of w])
  qed
qed


lemma callAbstracted_pathStack:
  assumes f: "\<And>w. pathStack (snd (f w)) = pathStack w"
  shows "pathStack (snd (snd (callAbstracted n name f c w))) = pathStack w"
proof (induction "Suc n - c" arbitrary: c w rule: less_induct)
  case less
  obtain x w1 where fw: "f w = (x, w1)" by (cases "f w")
  then have w1: "pathStack w1 = pathStack w" using f [of w] by simp
  show ?case
  proof (cases "n < c \<or> attempt w = None")
    case True
    then show ?thesis by (auto simp: callAbstracted.simps [of n name f c w])
  next
    case False
    then obtain a where a: "attempt w = Some a" and c: "c \<le> n" by auto
    have rec: "pathStack (snd (snd (callAbstracted n name f (c + 1) w1))) = pathStack w1"
      using c by (intro less.hyps) simp
    show ?thesis
    proof (cases x)
      case (Returned r)
      with fw a c w1 rec show ?thesis
        by (cases "success_of r") (simp_all add: callAbstracted.simps [of n name f c w])
    qed (use fw a c w1 in \<open>simp_all add: callAbstracted.simps [of n name f c w]\<close>)
  qed
qed

lemma retryLimited_pathStack:
  assumes f: "\<And>w. pathStack (snd (f w)) = pathStack w"
  shows "pathStack (snd (retryLimited n name f w)) = pathStack w"
proof -
  obtain x c w1 where r: "callAbstracted n name f 0 w = (x, c, w1)"
    by (cases "callAbstracted n name f 0 w")
  then have "pathStack w1 = pathStack w"
    using callAbstracted_pathStack [OF f, of n name 0 w] by simp
  with r show ?thesis
    by (cases x) (auto simp: retryLimited_def split: sum.splits)
qed

lemma listFiles_pathStack: "pathStack (snd (listFiles w)) = pathStack w"
  unfolding listFiles_def by (rule retryLimited_pathStack) (rule inner_listFiles_pathStack)

lemma appendFileSync_pathStack: "appendFileSync p c w = Inr w1 \<Longrightarrow> pathStack w1 = pathStack w"
  by (auto simp: appendFileSync_def split: if_splits option.splits)

lemma dwl_events_pathStack:
  "pathStack (snd (dwl_events p cb t evs off s w)) = pathStack w"
proof (induction p cb t evs off s w rule: dwl_events.induct)
  case (4 localPath progressCallback totalSize chunk evs offset settled w)
  show ?case
  proof (cases "appendFileSync localPath chunk w")
    case (Inl e)
    then show ?thesis by simp
  next
    case (Inr w1)
    with "4" [OF Inr] appendFileSync_pathStack [OF Inr] show ?thesis by simp
  qed
qed (auto split: option.splits)

lemma dwl_pathStack: "pathStack (snd (dwl a f p cb w)) = pathStack w"
proof (cases a)
  case None
  then show ?thesis by (simp add: dwl_def)
next
  case (Some t)
  obtain x w1 where g: "getFileSize a f w = (x, w1)" by (cases "getFileSize a f w")
  then have w1: "pathStack w1 = pathStack w" using getFileSize_pathStack [of a f w] by simp
  show ?thesis
  proof (cases x)
    case (Returned sizeData)
    with Some g w1 show ?thesis
      by (cases "streams w1") (simp_all add: dwl_def emit_def dwl_events_pathStack)
  qed (use Some g w1 in \<open>simp_all add: dwl_def\<close>)
qed

lemma inner_downloadFile_pathStack:
  "pathStack (snd (inner_downloadFile f p cb w)) = pathStack w"
proof (induction "length (replies w)" arbitrary: w rule: less_induct)
  case less
  obtain x y where l: "dwl (tokens_auth w) f p (download_progress cb) w = (x, y)"
    by (cases "dwl (tokens_auth w) f p (download_progress cb) w")
  then have y: "pathStack y = pathStack w"
    using dwl_pathStack [of "tokens_auth w" f p "download_progress cb" w] by simp
  show ?case
  proof (cases x)
    case (Returned r)
    show ?thesis
    proof (cases "truthy_success r \<or> truthy_error r")
      case True
      with l Returned y show ?thesis
        by (auto simp: inner_downloadFile.simps [of f p cb w])
    next
      case False
      have shorter: "length (replies y) < length (replies w)"
        using l Returned by (simp add: dwl_replies)
      obtain a w1 where au: "authenticate (creds_user y) (creds_pass y) y = (a, w1)"
        by (cases "authenticate (creds_user y) (creds_pass y) y")
      have w1: "pathStack w1 = pathStack y"
        using authenticate_frame(3) [OF au] .
      have "length (replies w1) < length (replies w)"
        using authenticate_replies [OF au] shorter by simp
      then have "pathStack (snd (inner_downloadFile f p cb w1)) = pathStack w1"
        by (rule less.hyps)
      with au w1 have "pathStack (snd (authRetry (inner_downloadFile f p cb) y)) = pathStack y"
        by (cases a) (simp_all add: authRetry_def)
      with l Returned False y show ?thesis
        by (simp add: inner_downloadFile.simps [of f p cb w])
    qed
  next
    case (Raised e)
    with l y show ?thesis by (simp add: inner_downloadFile.simps [of f p cb w])
  next
    case (Uncaught e)
    with l y show ?thesis by (simp add: inner_downloadFile.simps [of f p cb w])
  next
    case Hangs
    with l y show ?thesis by (simp add: inner_downloadFile.simps [of f p cb w])
  qed
qed

lemma downloadFile_pathStack: "pathStack (snd (downloadFile f p cb w)) = pathStack w"
  unfolding downloadFile_def by (rule retryLimited_pathStack) (rule inner_downloadFile_pathStack)

lemma mkdir_each_pathStack: "pathStack (snd (mkdir_each p folders w)) = pathStack w"
  by (induction p folders w rule: mkdir_each.induct)
     (auto simp: mkdirSync_def split: sum.splits if_splits)

lemma download_each_pathStack: "pathStack (snd (download_each p fileList w)) = pathStack w"
proof (induction p fileList w rule: download_each.induct)
  case (1 localPath w)
  then show ?case by simp
next
  case (2 localPath entry fileList w)
  let ?d = "downloadFile (ent_id entry) (path_join localPath (ent_name entry))
              (\<lambda>progress. [PercentReported progress]) w"
  obtain x w1 where d: "?d = (x, w1)" by (cases ?d)
  then have w1: "pathStack w1 = pathStack w"
    using downloadFile_pathStack [of "ent_id entry" "path_join localPath (ent_name entry)"
        "\<lambda>progress. [PercentReported progress]" w] by simp
  show ?case
  proof (cases x)
    case (Returned v)
    with "2.IH"(1) [OF d [symmetric] Returned] d w1 show ?thesis by simp
  next
    case (Raised e)
    with "2.IH"(2) [OF d [symmetric] Raised] d w1 show ?thesis by simp
  qed (use d w1 in simp_all)
qed


lemma downloadFolder_pathStack:
  "downloadFolder d i p w = Some (x, w1) \<Longrightarrow> \<exists>rest. pathStack w1 = pathStack w @ i # rest"
  "downloadSubfolders d p folders w = Some (x, w1) \<Longrightarrow> \<exists>rest. pathStack w1 = pathStack w @ rest"
proof (induction d i p w and d p folders w arbitrary: x w1 and x w1
    rule: downloadFolder_downloadSubfolders.induct)
  case (1 remoteFolderID localPath w)
  then show ?case by simp
next
  case (2 depth remoteFolderID localPath w)
  let ?we = "enterDirectory (Some remoteFolderID) w"
  obtain a wl where lf: "listFiles ?we = (a, wl)" by (cases "listFiles ?we")
  have wl: "pathStack wl = pathStack w @ [remoteFolderID]"
    using listFiles_pathStack [of ?we] lf by simp
  show ?case
  proof (cases "\<exists>es. a = Returned (Entries es)")
    case False
    with "2.prems" lf have "w1 = wl"
      by (auto split: outcome.splits js_value.splits)
    with wl show ?thesis by simp
  next
    case True
    then obtain es where a: "a = Returned (Entries es)" by blast
    obtain b w2 where mk: "mkdir_each localPath (filter isDir es) wl = (b, w2)"
      by (cases "mkdir_each localPath (filter isDir es) wl")
    have w2: "pathStack w2 = pathStack wl"
      using mkdir_each_pathStack [of localPath "filter isDir es" wl] mk by simp
    show ?thesis
    proof (cases "\<exists>u. b = Returned u")
      case False
      with "2.prems" lf a mk have "w1 = w2" by (auto split: outcome.splits)
      with wl w2 show ?thesis by simp
    next
      case True
      then obtain u where b: "b = Returned u" by blast
      obtain c w3 where de:
        "download_each localPath (filter (\<lambda>entry. \<not> isDir entry) es) w2 = (c, w3)"
        by (cases "download_each localPath (filter (\<lambda>entry. \<not> isDir entry) es) w2")
      have w3: "pathStack w3 = pathStack w2"
        using download_each_pathStack [of localPath "filter (\<lambda>entry. \<not> isDir entry) es" w2] de
        by simp
      show ?thesis
      proof (cases "\<exists>u'. c = Returned u'")
        case False
        with "2.prems" lf a mk b de have "w1 = w3" by (auto split: outcome.splits)
        with wl w2 w3 show ?thesis by simp
      next
        case True
        then obtain u' where c: "c = Returned u'" by blast
        have sub: "downloadSubfolders depth localPath (filter isDir es) w3 = Some (x, w1)"
          using "2.prems" lf a mk b de c by simp
        have "\<exists>rest. pathStack w1 = pathStack w3 @ rest"
          using "2.IH" [OF lf [unfolded a, symmetric] refl refl mk [unfolded b, symmetric] refl
              de [unfolded c, symmetric] refl sub] .
        with wl w2 w3 show ?thesis by auto
      qed
    qed
  qed
next
  case (3 depth localPath w)
  then show ?case by simp
next
  case (4 depth localPath folder folders w)
  let ?d = "downloadFolder depth (ent_id folder) (path_join localPath (ent_name folder)) w"
  from "4.prems" obtain y w2 where d: "?d = Some (y, w2)"
    by (cases ?d) auto
  from "4.IH"(1) [OF d] obtain r1 where w2: "pathStack w2 = pathStack w @ ent_id folder # r1"
    by blast
  show ?case
  proof (cases "\<exists>u. y = Returned u")
    case False
    with "4.prems" d have "w1 = w2" by (auto split: outcome.splits)
    with w2 show ?thesis by simp
  next
    case True
    then obtain u where y: "y = Returned u" by blast
    with "4.prems" d have "downloadSubfolders depth localPath folders w2 = Some (x, w1)"
      by simp
    from "4.IH"(2) [OF d refl y this] obtain r2 where "pathStack w1 = pathStack w2 @ r2"
      by blast
    with w2 show ?thesis by simp
  qed
qed

text \<open>
  Whatever the remote tree and the replies: a recursive download that completes leaves
  the source folder twice on top of the stack it started with, followed by every
  subfolder it has visited and by the folder it started in.  The stack is never the one
  it started with.
\<close>

lemma recursiveDownloadFolders_pathStack:
  assumes "recursiveDownloadFolders d src base w = Some (Returned u, w1)"
  shows "\<exists>rest. pathStack w1 = pathStack w @ src # src # rest"
proof -
  let ?we = "enterDirectory (Some src) w"
  from assms obtain wm where mk: "mkdirSync base ?we = Inr wm"
    by (cases "mkdirSync base ?we") (auto simp: recursiveDownloadFolders_def)
  then have wm: "pathStack wm = pathStack w @ [src]"
    by (auto simp: mkdirSync_def split: if_splits)
  from assms mk obtain y w2 where d: "downloadFolder d src base wm = Some (y, w2)"
    by (cases "downloadFolder d src base wm") (auto simp: recursiveDownloadFolders_def)
  with assms mk have y: "y = Returned ()" and w1: "w1 = enterDirectory (getCurrentFolder w) w2"
    by (auto simp: recursiveDownloadFolders_def split: outcome.splits)
  from downloadFolder_pathStack(1) [OF d] obtain r where "pathStack w2 = pathStack wm @ src # r"
    by blast
  with wm w1 show ?thesis
    by (cases "getCurrentFolder w") simp_all
qed

text \<open>
  C8 at concrete inputs: the remote folder \<^verbatim>\<open>A\<close> is empty.  Started in folder \<^verbatim>\<open>X\<close>,
  the download completes with the stack \<^verbatim>\<open>X, A, A, X\<close>: the current folder is \<^verbatim>\<open>X\<close>
  again, the stack is three deeper.  Started at the root, with the empty stack, it
  completes with the stack \<^verbatim>\<open>A, A\<close>, and the current folder is \<^verbatim>\<open>A\<close>.  In both runs the
  destination directory has been created before the listing.  Where no global
  \<^verbatim>\<open>attempt\<close> exists, the listing raises, the download does not complete, and the stack
  is left as \<^verbatim>\<open>X, A, A\<close>.
\<close>

theorem recursive_download_grows_stack:
  "map_option (\<lambda>(x, w). (x, pathStack w, local_dirs w))
     (recursiveDownloadFolders 2 ''A'' ''/tmp/A''
        (logged_in\<lparr>pathStack := [''X''], replies := [ok_reply no_fields]\<rparr>))
     = Some (Returned (), [''X'', ''A'', ''A'', ''X''], [''/tmp/A'']) \<and>
   map_option (\<lambda>(x, w). (x, pathStack w, getCurrentFolder w))
     (recursiveDownloadFolders 2 ''A'' ''/tmp/A''
        (logged_in\<lparr>pathStack := [], replies := [ok_reply no_fields]\<rparr>))
     = Some (Returned (), [''A'', ''A''], Some ''A'') \<and>
   map_option (\<lambda>(x, w). (x, pathStack w, local_dirs w))
     (recursiveDownloadFolders 2 ''A'' ''/tmp/A''
        (logged_in\<lparr>attempt := None, pathStack := [''X''], replies := [ok_reply no_fields]\<rparr>))
     = Some (Raised (ReferenceError ''attempt is not defined''), [''X'', ''A'', ''A''], [''/tmp/A''])"
  by code_simp

section \<open>Properties of the upload\<close>

text \<open>The generator yields nothing for an empty file, and the upload loop then does nothing.\<close>

lemma getFileContent_loop_empty: "getFileContent_loop [] 0 = []"
  by (simp add: getFileContent_loop.simps [of "[]" 0])

lemma uploadManual_empty_file:
  "map_of (local_files w) filePath = Some [] \<Longrightarrow>
   uploadManual data progressCallback filePath w = (Hangs, w)"
  by (simp add: uploadManual_def getFileContent_def getFileContent_loop_empty)

text \<open>
  C4 at a concrete input: an empty local file, and a server that answers the start of
  the activity and the opening of the upload session.  No PUT is sent, as the claim
  says; but no progress callback is called either, so no 100 is reported, the
  completion callback is never called, and the promise of \<^verbatim>\<open>_uploadFile\<close> is never
  settled: the upload does not complete.
\<close>

theorem upload_zero_byte_never_completes:
  "fst (inner_uploadFile replay ''/home/u/empty'' (\<lambda>q. [PercentReported q])
      (logged_in\<lparr>local_files := [(''/home/u/empty'', [])],
                 replies := [ok_reply (no_fields\<lparr>tag := Some ''act''\<rparr>),
                             located_reply ''/sdk/v2/files/xyz'', ok_reply no_fields]\<rparr>))
     = Hangs \<and>
   trace (snd (inner_uploadFile replay ''/home/u/empty'' (\<lambda>q. [PercentReported q])
      (logged_in\<lparr>local_files := [(''/home/u/empty'', [])],
                 replies := [ok_reply (no_fields\<lparr>tag := Some ''act''\<rparr>),
                             located_reply ''/sdk/v2/files/xyz'', ok_reply no_fields]\<rparr>)))
     = [Sent (ActivityPost (Some ''Bearer T'')),
        Sent (ResumablePost (Some ''Bearer T'') (Some ''act'') ''empty'' ''root'')] \<and>
   getFileContent ''/home/u/empty'' (logged_in\<lparr>local_files := [(''/home/u/empty'', [])]\<rparr>)
     = Inr []"
  by (simp add: inner_uploadFile_def upl_def startUpload_def uploadManual_def getFileContent_def
      getFileContent_loop_empty send_def emit_def logged_in_def w0_def ok_reply_def
      located_reply_def no_fields_def currentPath_def last_segment_def)

text \<open>One round of the generator's loop, with its local names resolved.\<close>

lemma getFileContent_loop_step:
  "getFileContent_loop content off =
     (if length content \<le> off then []
      else \<lparr>buffer = take bufferSize (drop off content),
            bytesRead = min bufferSize (length content - off),
            currentOffset = off, isDone = (length content - off < bufferSize)\<rparr>
           # (if length content - off < bufferSize then []
              else getFileContent_loop content (off + bufferSize)))"
  by (subst getFileContent_loop.simps) (auto simp: Let_def min_def)

lemma blocks_offsets_ge:
  "b \<in> set (getFileContent_loop content off) \<Longrightarrow> off \<le> currentOffset b"
proof (induction "length content - off" arbitrary: off rule: less_induct)
  case less
  show ?case
  proof (cases "length content \<le> off")
    case True
    with less.prems show ?thesis by (simp add: getFileContent_loop_step [of content off])
  next
    case False
    have pos: "0 < bufferSize" by (simp add: bufferSize_def)
    from less.prems False
    consider "currentOffset b = off"
      | "\<not> length content - off < bufferSize" "b \<in> set (getFileContent_loop content (off + bufferSize))"
      by (subst (asm) getFileContent_loop_step) (auto split: if_splits)
    then show ?thesis
    proof cases
      case 1 then show ?thesis by simp
    next
      case 2
      have "length content - (off + bufferSize) < length content - off"
        using False pos by arith
      from less.hyps [OF this 2(2)] show ?thesis by simp
    qed
  qed
qed

lemma blocks_sorted:
  "sorted_wrt (<) (map currentOffset (getFileContent_loop content off))"
proof (induction "length content - off" arbitrary: off rule: less_induct)
  case less
  have pos: "0 < bufferSize" by (simp add: bufferSize_def)
  show ?case
  proof (cases "length content \<le> off \<or> length content - off < bufferSize")
    case True
    then show ?thesis by (auto simp: getFileContent_loop_step [of content off])
  next
    case False
    then have dec: "length content - (off + bufferSize) < length content - off"
      using pos by arith
    have "\<forall>b \<in> set (getFileContent_loop content (off + bufferSize)). off < currentOffset b"
      using blocks_offsets_ge [of _ content "off + bufferSize"] pos by fastforce
    with less.hyps [OF dec] False show ?thesis
      by (subst getFileContent_loop_step) auto
  qed
qed

lemma blocks_done_only_last:
  "list_all (\<lambda>b. \<not> isDone b) (butlast (getFileContent_loop content off))"
proof (induction "length content - off" arbitrary: off rule: less_induct)
  case less
  have pos: "0 < bufferSize" by (simp add: bufferSize_def)
  show ?case
  proof (cases "length content \<le> off \<or> length content - off < bufferSize")
    case True
    then show ?thesis by (auto simp: getFileContent_loop_step [of content off])
  next
    case False
    then have dec: "length content - (off + bufferSize) < length content - off"
      using pos by arith
    with less.hyps [OF dec] False show ?thesis
      by (subst getFileContent_loop_step) auto
  qed
qed

lemma blocks_last:
  "off < length content \<Longrightarrow>
   getFileContent_loop content off \<noteq> [] \<and>
   currentOffset (last (getFileContent_loop content off))
     + bytesRead (last (getFileContent_loop content off)) = length content"
proof (induction "length content - off" arbitrary: off rule: less_induct)
  case less
  have pos: "0 < bufferSize" by (simp add: bufferSize_def)
  show ?case
  proof (cases "length content - off < bufferSize")
    case True
    with less.prems show ?thesis by (simp add: getFileContent_loop_step [of content off])
  next
    case False
    then have dec: "length content - (off + bufferSize) < length content - off"
      using pos less.prems by arith
    show ?thesis
    proof (cases "off + bufferSize < length content")
      case True
      from less.hyps [OF dec True] False less.prems show ?thesis
        by (subst (1 2 3) getFileContent_loop_step) simp
    next
      case False2: False
      then have "getFileContent_loop content (off + bufferSize) = []"
        by (simp add: getFileContent_loop_step [of content "off + bufferSize"])
      with False False2 less.prems show ?thesis
        by (subst (1 2 3) getFileContent_loop_step) simp
    qed
  qed
qed

lemma blocks_full:
  "length content = off + k * bufferSize \<Longrightarrow>
   length (getFileContent_loop content off) = k \<and>
   list_all (\<lambda>b. bytesRead b = bufferSize \<and> \<not> isDone b) (getFileContent_loop content off)"
proof (induction k arbitrary: off)
  case 0
  then show ?case by (simp add: getFileContent_loop_step [of content off])
next
  case (Suc k)
  then have "length content = (off + bufferSize) + k * bufferSize" by simp
  from Suc.IH [OF this] Suc.prems show ?case
    by (subst (1 2) getFileContent_loop_step) (simp add: bufferSize_def)
qed

lemma blocks_two:
  "bufferSize < length content \<Longrightarrow> 2 \<le> length (getFileContent_loop content 0)"
  using blocks_last [of bufferSize content]
  by (subst getFileContent_loop_step) (auto simp: Suc_le_eq bufferSize_def)

text \<open>
  The upload loop, whatever the replies: for some prefix of the blocks, the progress
  callback has been called and then the PUT has been sent, block after block.
\<close>

lemma send_Some:
  "replies w = r # rs \<Longrightarrow> send rq w = (Some r, (emit (Sent rq) w)\<lparr>replies := rs\<rparr>)"
  by (simp add: send_def)

lemma send_trace: "send rq w = (x, w1) \<Longrightarrow> trace w1 = trace w @ [Sent rq]"
  by (auto simp: send_def emit_def split: list.splits)

lemma uploadManual_loop_trace:
  "uploadManual_loop data cb blocks w = (x, w') \<Longrightarrow>
   \<exists>j\<le>length blocks. trace w' = trace w @
      concat (map (\<lambda>b. cb (currentOffset b) @ [Sent (chunk_put data b)]) (take j blocks))"
proof (induction blocks arbitrary: w)
  case Nil
  then show ?case by simp
next
  case (Cons b bs)
  let ?w0 = "w\<lparr>trace := trace w @ cb (currentOffset b)\<rparr>"
  obtain y w1 where s: "send (chunk_put data b) ?w0 = (y, w1)" by (cases "send (chunk_put data b) ?w0")
  then have t1: "trace w1 = trace w @ cb (currentOffset b) @ [Sent (chunk_put data b)]"
    using send_trace [OF s] by simp
  show ?case
  proof (cases "\<exists>r response. y = Some r \<and> cb_response r = Some response
      \<and> statusCode response \<noteq> 401 \<and> cb_error r = None \<and> \<not> isDone b")
    case True
    then have "uploadManual_loop data cb bs w1 = (x, w')"
      using Cons.prems s by auto
    from Cons.IH [OF this] obtain j where "j \<le> length bs"
      and "trace w' = trace w1 @
        concat (map (\<lambda>b. cb (currentOffset b) @ [Sent (chunk_put data b)]) (take j bs))"
      by blast
    with t1 show ?thesis by (intro exI [of _ "Suc j"]) simp
  next
    case False
    then have "w' = w1"
      using Cons.prems s by (auto split: option.splits if_splits)
    with t1 show ?thesis by (intro exI [of _ "Suc 0"]) simp
  qed
qed

lemma uploadManual_loop_success:
  "uploadManual_loop data cb blocks w = (Returned r, w') \<Longrightarrow> truthy_success r \<Longrightarrow>
   \<exists>b\<in>set blocks. isDone b"
proof (induction blocks arbitrary: w)
  case Nil
  then show ?case by simp
next
  case (Cons b bs)
  then show ?case
    by (auto simp: truthy_success_def session_expired_def
        split: prod.splits option.splits if_splits)
qed

lemma uploadManual_loop_accepted:
  "list_all (\<lambda>b. \<not> isDone b) (butlast blocks) \<Longrightarrow> length blocks \<le> length (replies w) \<Longrightarrow>
   list_all accepted (take (length blocks) (replies w)) \<Longrightarrow>
   trace (snd (uploadManual_loop data cb blocks w)) = trace w @
      concat (map (\<lambda>b. cb (currentOffset b) @ [Sent (chunk_put data b)]) blocks) \<and>
   fst (uploadManual_loop data cb blocks w)
     = (if blocks \<noteq> [] \<and> isDone (last blocks) then Returned (succeeded (Bool True)) else Hangs)"
proof (induction blocks arbitrary: w)
  case Nil
  then show ?case by simp
next
  case (Cons b bs)
  let ?w0 = "w\<lparr>trace := trace w @ cb (currentOffset b)\<rparr>"
  from Cons.prems obtain r rs where rs: "replies w = r # rs" by (cases "replies w") auto
  with Cons.prems obtain response where r: "cb_response r = Some response"
    "statusCode response \<noteq> 401" "cb_error r = None"
    by (auto simp: accepted_def split: option.splits)
  let ?w1 = "(emit (Sent (chunk_put data b)) ?w0)\<lparr>replies := rs\<rparr>"
  have s: "send (chunk_put data b) ?w0 = (Some r, ?w1)"
    using rs by (simp add: send_Some)
  show ?case
  proof (cases "isDone b")
    case True
    with Cons.prems have "bs = []" by (cases bs) auto
    with True s r show ?thesis by (simp add: emit_def)
  next
    case False
    have step: "uploadManual_loop data cb (b # bs) w = uploadManual_loop data cb bs ?w1"
      using s r False by simp
    have p1: "list_all (\<lambda>b. \<not> isDone b) (butlast bs)"
      using Cons.prems(1) by (cases bs) auto
    have p2: "length bs \<le> length (replies ?w1)" using Cons.prems(2) rs by simp
    have p3: "list_all accepted (take (length bs) (replies ?w1))"
      using Cons.prems(3) rs by simp
    from Cons.IH [OF p1 p2 p3] False show ?thesis
      unfolding step by (cases bs) (simp_all add: emit_def)
  qed
qed

lemma offsets_reported_append:
  "offsets_reported (xs @ ys) = offsets_reported xs @ offsets_reported ys"
  by (induction xs rule: offsets_reported.induct) simp_all

lemma offsets_reported_blocks:
  "offsets_reported (concat (map (\<lambda>b. [OffsetReported (currentOffset b), Sent (chunk_put data b)]) blocks))
     = map currentOffset blocks"
  by (induction blocks) simp_all

lemma no_done_put:
  "list_all (\<lambda>b. \<not> isDone b) blocks \<Longrightarrow>
   \<not> list_ex is_done_put
       (concat (map (\<lambda>b. [OffsetReported (currentOffset b), Sent (chunk_put data b)]) (take j blocks)))"
proof (induction blocks arbitrary: j)
  case Nil
  then show ?case by simp
next
  case (Cons b bs)
  then show ?case by (cases j) (simp_all add: chunk_put_def)
qed

lemma upl_reaches_loop:
  assumes "map_of (local_files w) filePath = Some content"
    and "replies w = r1 # r2 # rest" and "accepted r1" and "cb_body r1 = Parsed d"
    and "accepted r2"
  shows "\<exists>data w2. upl a p filePath rc w
            = uploadManual_loop data rc (getFileContent_loop content 0) w2
          \<and> replies w2 = rest
          \<and> trace w2 = trace w @ [Sent (ActivityPost a),
                                   Sent (ResumablePost a (tag d) (last_segment filePath) p)]"
  using assms
  apply (auto simp: upl_def startUpload_def uploadManual_def getFileContent_def send_def emit_def
      accepted_def split: option.splits)
   apply (intro exI conjI, rule refl, simp, simp)+
  done

lemma inner_uploadFile_hangs:
  assumes "map_of (local_files w) filePath = Some content"
    and "fst (upl (tokens_auth w) (currentPath w) filePath
           (upload_progress cb (length content)) w) = Hangs"
  shows "fst (inner_uploadFile replay filePath cb w) = Hangs"
  using assms by (auto simp: inner_uploadFile_def split: prod.splits outcome.splits)

text \<open>
  C5, amended: for every local file whose size is a nonzero exact multiple of the
  block size of 20480 bytes, the generator yields only full blocks with the done flag
  false (one per block of the file); so the chunked upload never sends a PUT with
  \<^verbatim>\<open>done=true\<close> and never calls the completion callback with a success (it calls it
  only with the failure of a PUT); and when the server accepts every request of the
  upload, the completion callback is never called at all and the promise of
  \<^verbatim>\<open>_uploadFile\<close> is never settled.
\<close>

theorem full_blocks_upload_never_done:
  assumes "length content = k * bufferSize" and "0 < k"
  shows "length (getFileContent_loop content 0) = k \<and>
    list_all (\<lambda>b. bytesRead b = bufferSize \<and> \<not> isDone b) (getFileContent_loop content 0) \<and>
    (\<forall>data w x w'.
       uploadManual_loop data (\<lambda>n. [OffsetReported n]) (getFileContent_loop content 0) w = (x, w')
       \<longrightarrow> \<not> list_ex is_done_put (drop (length (trace w)) (trace w'))
            \<and> (\<forall>r. x = Returned r \<longrightarrow> \<not> truthy_success r)) \<and>
    (\<forall>data cb w. k \<le> length (replies w) \<and> list_all accepted (take k (replies w))
       \<longrightarrow> fst (uploadManual_loop data cb (getFileContent_loop content 0) w) = Hangs) \<and>
    (\<forall>replay filePath cb w r1 r2 d rest.
       map_of (local_files w) filePath = Some content \<and> replies w = r1 # r2 # rest \<and>
       accepted r1 \<and> cb_body r1 = Parsed d \<and> accepted r2 \<and>
       k \<le> length rest \<and> list_all accepted (take k rest)
       \<longrightarrow> fst (inner_uploadFile replay filePath cb w) = Hangs)"
proof -
  let ?blocks = "getFileContent_loop content 0"
  from assms(1) have full: "length ?blocks = k"
    "list_all (\<lambda>b. bytesRead b = bufferSize \<and> \<not> isDone b) ?blocks"
    using blocks_full [of content 0 k] by simp_all
  then have nd: "list_all (\<lambda>b. \<not> isDone b) ?blocks"
    by (simp add: list_all_iff)
  then have ndl: "list_all (\<lambda>b. \<not> isDone b) (butlast ?blocks)"
    by (auto simp: list_all_iff dest: in_set_butlastD)
  have nonempty: "?blocks \<noteq> []" using full(1) assms(2) by auto
  have last_nd: "\<not> isDone (last ?blocks)"
    using nd nonempty by (simp add: list_all_iff)
  have hang: "fst (uploadManual_loop data cb ?blocks w) = Hangs"
    if "k \<le> length (replies w)" "list_all accepted (take k (replies w))"
    for data cb w
    using uploadManual_loop_accepted [OF ndl, of w data cb] that full(1) last_nd by simp
  have c3: "\<not> list_ex is_done_put (drop (length (trace w)) (trace w'))
            \<and> (\<forall>r. x = Returned r \<longrightarrow> \<not> truthy_success r)"
    if run: "uploadManual_loop data (\<lambda>n. [OffsetReported n]) ?blocks w = (x, w')"
    for data w x w'
  proof -
    from uploadManual_loop_trace [OF run] obtain j where
      "trace w' = trace w @ concat (map (\<lambda>b. [OffsetReported (currentOffset b),
          Sent (chunk_put data b)]) (take j ?blocks))"
      by auto
    then have "\<not> list_ex is_done_put (drop (length (trace w)) (trace w'))"
      using no_done_put [OF nd, of data j] by simp
    moreover have "\<not> truthy_success r" if "x = Returned r" for r
      using uploadManual_loop_success [of data _ ?blocks w r w'] run that nd
      by (auto simp: list_all_iff)
    ultimately show ?thesis by blast
  qed
  have c5: "fst (inner_uploadFile replay filePath cb w) = Hangs"
    if "map_of (local_files w) filePath = Some content" "replies w = r1 # r2 # rest"
      "accepted r1" "cb_body r1 = Parsed d" "accepted r2"
      "k \<le> length rest" "list_all accepted (take k rest)"
    for replay filePath cb w r1 r2 d rest
  proof -
    from upl_reaches_loop [OF that(1-5), of "tokens_auth w" "currentPath w"
        "upload_progress cb (length content)"]
    obtain data w2 where
      "upl (tokens_auth w) (currentPath w) filePath (upload_progress cb (length content)) w
         = uploadManual_loop data (upload_progress cb (length content)) ?blocks w2"
      and "replies w2 = rest"
      by blast
    then have "fst (upl (tokens_auth w) (currentPath w) filePath
        (upload_progress cb (length content)) w) = Hangs"
      using hang [of w2 data "upload_progress cb (length content)"] that(6,7) by simp
    then show ?thesis by (rule inner_uploadFile_hangs [OF that(1)])
  qed
  from full c3 hang c5 show ?thesis by blast
qed

lemma one_full_block:
  "getFileContent_loop (replicate 20480 x) 0
     = [\<lparr>buffer = replicate 20480 x, bytesRead = 20480, currentOffset = 0, isDone = False\<rparr>]"
  by (simp add: getFileContent_loop_step [of "replicate 20480 x" 0]
      getFileContent_loop_step [of "replicate 20480 x" 20480] bufferSize_def)

text \<open>
  C5, as the claim states it, fails where a PUT fails: for a file of exactly one block
  whose PUT is answered with 401, \<^verbatim>\<open>uploadManual\<close> does call the completion callback,
  with the session failure (once, after one progress report and one PUT).
\<close>

theorem full_block_upload_reports_failure:
  "length (replicate 20480 (0::byte)) = 1 * bufferSize \<and>
   fst (uploadManual \<lparr>authorization = Some ''Bearer T'', xActivityTag = Some ''act'', url = ''u''\<rparr>
         (\<lambda>n. [OffsetReported n]) ''/home/u/one''
         (logged_in\<lparr>local_files := [(''/home/u/one'', replicate 20480 0)],
                    replies := [unauthorized_reply]\<rparr>))
     = Returned session_expired \<and>
   trace (snd (uploadManual \<lparr>authorization = Some ''Bearer T'', xActivityTag = Some ''act'', url = ''u''\<rparr>
         (\<lambda>n. [OffsetReported n]) ''/home/u/one''
         (logged_in\<lparr>local_files := [(''/home/u/one'', replicate 20480 0)],
                    replies := [unauthorized_reply]\<rparr>)))
     = [OffsetReported 0,
        Sent (ChunkPut ''u'' 0 False (Some ''Bearer T'') (Some ''act'') (replicate 20480 0))]"
  by (simp add: uploadManual_def getFileContent_def one_full_block send_def emit_def
      unauthorized_reply_def logged_in_def w0_def chunk_put_def bufferSize_def)

theorem full_blocks_upload_never_done_witness:
  "length (replicate 20480 (0::byte)) = 1 * bufferSize \<and> (0::nat) < 1 \<and>
   length (getFileContent_loop (replicate 20480 (0::byte)) 0) = 1 \<and>
   fst (inner_uploadFile (\<lambda>w. (Hangs, w)) ''/home/u/one'' (\<lambda>q. [PercentReported q])
         (logged_in\<lparr>local_files := [(''/home/u/one'', replicate 20480 0)],
                    replies := [ok_reply (no_fields\<lparr>tag := Some ''act''\<rparr>),
                                located_reply ''/sdk/v2/files/xyz'', ok_reply no_fields]\<rparr>))
     = Hangs"
proof -
  let ?w = "logged_in\<lparr>local_files := [(''/home/u/one'', replicate 20480 (0::byte))],
                    replies := [ok_reply (no_fields\<lparr>tag := Some ''act''\<rparr>),
                                located_reply ''/sdk/v2/files/xyz'', ok_reply no_fields]\<rparr>"
  have h1: "length (replicate 20480 (0::byte)) = 1 * bufferSize"
    by (simp add: bufferSize_def)
  have h2: "(0::nat) < 1" by simp
  have pre: "map_of (local_files ?w) ''/home/u/one'' = Some (replicate 20480 0) \<and>
      replies ?w = ok_reply (no_fields\<lparr>tag := Some ''act''\<rparr>)
         # located_reply ''/sdk/v2/files/xyz'' # [ok_reply no_fields] \<and>
      accepted (ok_reply (no_fields\<lparr>tag := Some ''act''\<rparr>)) \<and>
      cb_body (ok_reply (no_fields\<lparr>tag := Some ''act''\<rparr>)) = Parsed (no_fields\<lparr>tag := Some ''act''\<rparr>) \<and>
      accepted (located_reply ''/sdk/v2/files/xyz'') \<and>
      1 \<le> length [ok_reply no_fields] \<and> list_all accepted (take 1 [ok_reply no_fields])"
    by (simp add: accepted_def ok_reply_def located_reply_def)
  from full_blocks_upload_never_done [OF h1 h2] pre h1 h2 show ?thesis
    by blast
qed

text \<open>
  C6, amended: for every upload of a file larger than the block size of 20480 bytes,
  the progress callback is called immediately before each chunk PUT is sent (so also
  for a chunk whose PUT then fails), with the byte offset of the start of that chunk;
  there are at least two chunks, the offsets are strictly increasing, and when every PUT
  is accepted the offsets reported are those of all chunks, the last of them being the
  file size minus the size of the final chunk.
\<close>

theorem progress_reported_before_each_put:
  assumes "bufferSize < length content"
  shows "2 \<le> length (getFileContent_loop content 0) \<and>
    sorted_wrt (<) (map currentOffset (getFileContent_loop content 0)) \<and>
    currentOffset (last (getFileContent_loop content 0))
      = length content - bytesRead (last (getFileContent_loop content 0)) \<and>
    (\<forall>data w x w'.
       uploadManual_loop data (\<lambda>n. [OffsetReported n]) (getFileContent_loop content 0) w = (x, w')
       \<longrightarrow> (\<exists>j\<le>length (getFileContent_loop content 0).
              trace w' = trace w @
                concat (map (\<lambda>b. [OffsetReported (currentOffset b), Sent (chunk_put data b)])
                  (take j (getFileContent_loop content 0))))) \<and>
    (\<forall>data w.
       length (getFileContent_loop content 0) \<le> length (replies w) \<and>
       list_all accepted (take (length (getFileContent_loop content 0)) (replies w))
       \<longrightarrow> offsets_reported (trace (snd
              (uploadManual_loop data (\<lambda>n. [OffsetReported n]) (getFileContent_loop content 0) w)))
            = offsets_reported (trace w) @ map currentOffset (getFileContent_loop content 0))"
proof -
  let ?blocks = "getFileContent_loop content 0"
  have pos: "0 < length content" using assms by (cases content) simp_all
  have c1: "2 \<le> length ?blocks" using assms by (rule blocks_two)
  have c2: "sorted_wrt (<) (map currentOffset ?blocks)" by (rule blocks_sorted)
  have c3: "currentOffset (last ?blocks) = length content - bytesRead (last ?blocks)"
    using blocks_last [OF pos] by linarith
  have c4: "\<exists>j\<le>length ?blocks. trace w' = trace w @
      concat (map (\<lambda>b. [OffsetReported (currentOffset b), Sent (chunk_put data b)]) (take j ?blocks))"
    if "uploadManual_loop data (\<lambda>n. [OffsetReported n]) ?blocks w = (x, w')" for data w x w'
    using uploadManual_loop_trace [OF that] by simp
  have c5: "offsets_reported (trace (snd (uploadManual_loop data (\<lambda>n. [OffsetReported n]) ?blocks w)))
      = offsets_reported (trace w) @ map currentOffset ?blocks"
    if "length ?blocks \<le> length (replies w)"
      "list_all accepted (take (length ?blocks) (replies w))" for data w
    using uploadManual_loop_accepted [OF blocks_done_only_last that, of data "\<lambda>n. [OffsetReported n]"]
    by (simp add: offsets_reported_append offsets_reported_blocks)
  from c1 c2 c3 c4 c5 show ?thesis by blast
qed

lemma first_of_two_blocks:
  "getFileContent_loop (replicate 20481 x) 0
     = \<lparr>buffer = replicate 20480 x, bytesRead = 20480, currentOffset = 0, isDone = False\<rparr>
       # getFileContent_loop (replicate 20481 x) 20480"
  by (simp add: getFileContent_loop_step [of "replicate 20481 x" 0] bufferSize_def)

text \<open>
  C6, as the claim states it, fails: the callback is not called after a successful PUT
  but before the PUT is sent.  For a file of 20481 bytes whose first PUT is answered
  with 401, the offset 0 has been reported although no PUT has succeeded.
\<close>

theorem progress_reported_for_failed_put:
  "fst (uploadManual \<lparr>authorization = Some ''Bearer T'', xActivityTag = Some ''act'', url = ''u''\<rparr>
         (\<lambda>n. [OffsetReported n]) ''/home/u/two''
         (logged_in\<lparr>local_files := [(''/home/u/two'', replicate 20481 0)],
                    replies := [unauthorized_reply]\<rparr>))
     = Returned session_expired \<and>
   offsets_reported (trace (snd
     (uploadManual \<lparr>authorization = Some ''Bearer T'', xActivityTag = Some ''act'', url = ''u''\<rparr>
         (\<lambda>n. [OffsetReported n]) ''/home/u/two''
         (logged_in\<lparr>local_files := [(''/home/u/two'', replicate 20481 0)],
                    replies := [unauthorized_reply]\<rparr>))))
     = [0] \<and>
   length (filter is_chunk_put (trace (snd
     (uploadManual \<lparr>authorization = Some ''Bearer T'', xActivityTag = Some ''act'', url = ''u''\<rparr>
         (\<lambda>n. [OffsetReported n]) ''/home/u/two''
         (logged_in\<lparr>local_files := [(''/home/u/two'', replicate 20481 0)],
                    replies := [unauthorized_reply]\<rparr>)))))
     = 1"
  by (simp add: uploadManual_def getFileContent_def first_of_two_blocks send_def emit_def
      unauthorized_reply_def logged_in_def w0_def chunk_put_def)

lemma two_blocks:
  "getFileContent_loop (replicate 20481 x) 0
     = [\<lparr>buffer = replicate 20480 x, bytesRead = 20480, currentOffset = 0, isDone = False\<rparr>,
        \<lparr>buffer = [x], bytesRead = 1, currentOffset = 20480, isDone = True\<rparr>]"
  by (simp add: getFileContent_loop_step [of "replicate 20481 x" 0]
      getFileContent_loop_step [of "replicate 20481 x" 20480] bufferSize_def)

theorem progress_reported_before_each_put_witness:
  "bufferSize < length (replicate 20481 (0::byte)) \<and>
   2 \<le> length (getFileContent_loop (replicate 20481 (0::byte)) 0) \<and>
   currentOffset (last (getFileContent_loop (replicate 20481 (0::byte)) 0)) = 20481 - 1 \<and>
   offsets_reported (trace (snd (uploadManual_loop
       \<lparr>authorization = Some ''Bearer T'', xActivityTag = Some ''act'', url = ''u''\<rparr>
       (\<lambda>n. [OffsetReported n]) (getFileContent_loop (replicate 20481 (0::byte)) 0)
       (logged_in\<lparr>replies := [ok_reply no_fields, ok_reply no_fields]\<rparr>))))
     = [0, 20480]"
proof -
  let ?w = "logged_in\<lparr>replies := [ok_reply no_fields, ok_reply no_fields]\<rparr>"
  have h: "bufferSize < length (replicate 20481 (0::byte))"
    by (simp add: bufferSize_def)
  have pre: "length (getFileContent_loop (replicate 20481 (0::byte)) 0) \<le> length (replies ?w) \<and>
      list_all accepted (take (length (getFileContent_loop (replicate 20481 (0::byte)) 0)) (replies ?w))"
    by (simp add: two_blocks accepted_def ok_reply_def)
  have tr: "offsets_reported (trace ?w) = []"
    by (simp add: logged_in_def w0_def)
  have offs: "map currentOffset (getFileContent_loop (replicate 20481 (0::byte)) 0) = [0, 20480]"
    "bytesRead (last (getFileContent_loop (replicate 20481 (0::byte)) 0)) = 1"
    by (simp_all add: two_blocks)
  from progress_reported_before_each_put [OF h] pre
  have "2 \<le> length (getFileContent_loop (replicate 20481 (0::byte)) 0)"
    and "currentOffset (last (getFileContent_loop (replicate 20481 (0::byte)) 0))
      = length (replicate 20481 (0::byte)) - bytesRead (last (getFileContent_loop (replicate 20481 (0::byte)) 0))"
    and "offsets_reported (trace (snd (uploadManual_loop
       \<lparr>authorization = Some ''Bearer T'', xActivityTag = Some ''act'', url = ''u''\<rparr>
       (\<lambda>n. [OffsetReported n]) (getFileContent_loop (replicate 20481 (0::byte)) 0) ?w)))
     = offsets_reported (trace ?w) @ map currentOffset (getFileContent_loop (replicate 20481 (0::byte)) 0)"
    by blast+
  with h tr offs show ?thesis by simp
qed

end
